theory Spec2Isabelle
  imports Main "HOL-Library.Sublist"
begin

section \<open>Board document\<close>

text \<open>
  The interfaces \<^verbatim>\<open>Task\<close>, \<^verbatim>\<open>Column\<close>, \<^verbatim>\<open>HistoryEntry\<close> and \<^verbatim>\<open>BoardData\<close> of
  the client's types (src/kanban-frontend/src/store.ts, lines 156 to 180), which are also
  the shape of the document that the server keeps in its file.
  Field names carry a prefix where two interfaces share a name. The optional fields
  (\<^verbatim>\<open>description?\<close>, \<^verbatim>\<open>history?\<close>) are options: \<open>None\<close> is JavaScript's
  \<^verbatim>\<open>undefined\<close>. The two dictionaries are maps from the key string.
\<close>

record task =
  task_id :: string
  task_title :: string
  description :: "string option"
  createdAt :: string

record column =
  col_id :: string
  col_title :: string
  taskIds :: "string list"

record historyEntry =
  hist_id :: string
  action :: string
  timestamp :: string

record boardData =
  tasks :: "string \<rightharpoonup> task"
  columns :: "string \<rightharpoonup> column"
  columnOrder :: "string list"
  history :: "historyEntry list option"

section \<open>Array.prototype.splice\<close>

text \<open>
  \<^verbatim>\<open>xs.splice(start, deleteCount, ...items)\<close> as ECMAScript defines it, on the integer
  that \<^verbatim>\<open>ToIntegerOrInfinity\<close> makes of each argument: a negative \<open>start\<close> counts from
  the end and stops at 0, a \<open>start\<close> beyond the length is the length, and
  \<open>deleteCount\<close> is cut to what is left after \<open>actualStart\<close>. The function returns the
  array as the call leaves it.
\<close>

definition actualStart :: "nat \<Rightarrow> int \<Rightarrow> nat" where
  "actualStart len start =
     (if start < 0 then nat (max (int len + start) 0) else min (nat start) len)"

definition splice_js :: "'a list \<Rightarrow> int \<Rightarrow> int \<Rightarrow> 'a list \<Rightarrow> 'a list" where
  "splice_js xs start deleteCount items =
     (let s = actualStart (length xs) start;
          k = min (nat (max deleteCount 0)) (length xs - s)
      in take s xs @ items @ drop (s + k) xs)"

section \<open>The server\<close>

text \<open>
  The Express application (src/README.md, lines 319 to 560).

  The document is parsed JSON: \<^verbatim>\<open>data.tasks\<close> and \<^verbatim>\<open>data.columns\<close> are plain objects, and
  \<^verbatim>\<open>obj[key]\<close> on a plain object finds the own property of that name, or else the
  property that the object inherits from \<^verbatim>\<open>Object.prototype\<close>, or else
  \<^verbatim>\<open>undefined\<close>. The runtime gives \<^verbatim>\<open>Object.prototype\<close> eleven functions and, under
  \<^verbatim>\<open>__proto__\<close>, the prototype itself. All of these are truthy objects, and none of them
  has a property \<^verbatim>\<open>title\<close>, \<^verbatim>\<open>description\<close> or \<^verbatim>\<open>taskIds\<close>.
\<close>

definition prototype_names :: "string list" where
  "prototype_names =
     [''constructor'', ''__defineGetter__'', ''__defineSetter__'', ''hasOwnProperty'',
      ''__lookupGetter__'', ''__lookupSetter__'', ''isPrototypeOf'', ''propertyIsEnumerable'',
      ''toString'', ''valueOf'', ''__proto__'', ''toLocaleString'']"

text \<open>
  The update handler assigns \<^verbatim>\<open>title\<close> and \<^verbatim>\<open>description\<close> to whatever
  \<^verbatim>\<open>data.tasks[id]\<close> is (see \<open>updateTask\<close> below), also to one of these built-in objects,
  and what it assigns there stays for the requests that the process handles later: a
  built-in object may then have a title, and a string assigned to \<^verbatim>\<open>Object.prototype\<close>
  is itself inherited by every plain object, under the name \<^verbatim>\<open>title\<close> or
  \<^verbatim>\<open>description\<close>. No handler assigns anything else to an object that outlives the
  request, so a truthy value that a plain object inherits is
  \<^item> a built-in object, or
  \<^item> a string (a primitive: an assignment to a property of it does nothing),

  each with what its property \<^verbatim>\<open>title\<close> reads, \<open>None\<close> for \<^verbatim>\<open>undefined\<close>.
\<close>

datatype inherited = Builtin "string option" | Text "string option"

text \<open>
  What a request handler takes from outside the document: the two values of
  \<^verbatim>\<open>uuidv4()\<close> (task id, history id), the two readings of the clock
  (\<^verbatim>\<open>new Date().toISOString()\<close> for \<^verbatim>\<open>createdAt\<close> and for the history entry),
  whether \<^verbatim>\<open>readData\<close> and \<^verbatim>\<open>writeData\<close> succeed, and \<^verbatim>\<open>Object.prototype\<close> as it is when
  the request comes in: the truthy value, if there is one, that a plain object inherits
  under each name. The arguments of a handler are the values that it destructures from
  the request.
\<close>

record env =
  uuid_task :: string
  uuid_hist :: string
  now_task :: string
  now_hist :: string
  read_ok :: bool
  write_ok :: bool
  object_prototype :: "string \<rightharpoonup> inherited"

text \<open>\<^verbatim>\<open>Object.prototype\<close> as the runtime creates it.\<close>

definition runtime_prototype :: "string \<rightharpoonup> inherited" where
  "runtime_prototype key = (if key \<in> set prototype_names then Some (Builtin None) else None)"

text \<open>
  What a handler does when it does not send its regular body: it answers with a status
  and an error message, or it throws (\<^verbatim>\<open>data.columns.todo\<close> of a document without that
  column is \<^verbatim>\<open>undefined\<close> and reading \<^verbatim>\<open>taskIds\<close> of it is a \<^verbatim>\<open>TypeError\<close>), or, in
  the update handler, it answers with status 200 and passes to \<^verbatim>\<open>res.json\<close> a value
  that is not a task of the document (see \<open>updateTask\<close> below).
\<close>

datatype srv_error = HttpError nat string | TypeError | Not_a_task

text \<open>
  \<^verbatim>\<open>obj[key]\<close> for one of the two dictionaries of the document: the own property, or the
  truthy value that is inherited, or else a value that is falsy (\<^verbatim>\<open>undefined\<close>, or an
  empty string that is inherited).
\<close>

datatype 'a property = Own 'a | Inherited inherited | Undefined

definition property :: "env \<Rightarrow> (string \<rightharpoonup> 'a) \<Rightarrow> string \<Rightarrow> 'a property" where
  "property e obj key =
     (case obj key of
        Some v \<Rightarrow> Own v
      | None \<Rightarrow> (case object_prototype e key of
                   Some v \<Rightarrow> Inherited v
                 | None \<Rightarrow> Undefined))"

text \<open>
  What a template literal prints for \<^verbatim>\<open>data.tasks[id].title\<close>: the title of a task, the
  title of an inherited value, \<^verbatim>\<open>undefined\<close> when it has none.
\<close>

definition title_of :: "inherited \<Rightarrow> string option" where
  "title_of v = (case v of Builtin t \<Rightarrow> t | Text t \<Rightarrow> t)"

definition template_text :: "string option \<Rightarrow> string" where
  "template_text v = (case v of None \<Rightarrow> ''undefined'' | Some s \<Rightarrow> s)"

definition title_text :: "task property \<Rightarrow> string" where
  "title_text found =
     (case found of
        Own t \<Rightarrow> task_title t
      | Inherited v \<Rightarrow> template_text (title_of v)
      | Undefined \<Rightarrow> ''undefined'')"

text \<open>JavaScript truthiness of an optional string: \<^verbatim>\<open>undefined\<close> and \<^verbatim>\<open>''\<close> are falsy.\<close>

definition truthy :: "string option \<Rightarrow> bool" where
  "truthy s = (case s of None \<Rightarrow> False | Some t \<Rightarrow> t \<noteq> [])"

definition initialData :: "string \<Rightarrow> boardData" where
  "initialData now =
     \<lparr> tasks = [''task-1'' \<mapsto>
          \<lparr> task_id = ''task-1'',
            task_title = ''Welcome to your Kanban Board!'',
            description = Some ''Drag me to different columns or edit me by clicking!'',
            createdAt = now \<rparr>],
       columns = [''todo'' \<mapsto> \<lparr> col_id = ''todo'', col_title = ''To Do'', taskIds = [''task-1''] \<rparr>,
                  ''inprogress'' \<mapsto> \<lparr> col_id = ''inprogress'', col_title = ''In Progress'', taskIds = [] \<rparr>,
                  ''done'' \<mapsto> \<lparr> col_id = ''done'', col_title = ''Done'', taskIds = [] \<rparr>],
       columnOrder = [''todo'', ''inprogress'', ''done''],
       history = Some [] \<rparr>"

definition addToHistory :: "env \<Rightarrow> boardData \<Rightarrow> string \<Rightarrow> boardData" where
  "addToHistory e data act =
     (let h = (case history data of None \<Rightarrow> [] | Some h \<Rightarrow> h);
          unshifted = \<lparr> hist_id = uuid_hist e, action = act, timestamp = now_hist e \<rparr> # h
      in data\<lparr>history := Some (take 5 unshifted)\<rparr>)"

text \<open>
  Each handler returns its answer and the document that is in the file afterwards: the
  one passed to \<^verbatim>\<open>writeData\<close> when the write succeeds, the old one on every other path.
\<close>

definition createTask ::
  "env \<Rightarrow> boardData \<Rightarrow> string option \<Rightarrow> string option \<Rightarrow> (srv_error + task) \<times> boardData" where
  "createTask e file title descr =
     (if \<not> truthy title then (Inl (HttpError 400 ''Task title is required''), file)
      else if \<not> read_ok e then (Inl (HttpError 500 ''Failed to read board data''), file)
      else
        let taskId = uuid_task e;
            newTask = \<lparr> task_id = taskId,
                        task_title = the title,
                        description = Some (if truthy descr then the descr else ''''),
                        createdAt = now_task e \<rparr>;
            data1 = file\<lparr>tasks := (tasks file)(taskId \<mapsto> newTask)\<rparr>
        in case columns data1 ''todo'' of
             None \<Rightarrow> (Inl TypeError, file)
           | Some todo \<Rightarrow>
               let data2 = data1\<lparr>columns :=
                             (columns data1)(''todo'' \<mapsto> todo\<lparr>taskIds := taskIds todo @ [taskId]\<rparr>)\<rparr>;
                   data3 = addToHistory e data2 (''Created task: \"'' @ the title @ ''\"'')
               in if write_ok e then (Inr newTask, data3)
                  else (Inl (HttpError 500 ''Failed to save task''), file))"

text \<open>
  The characters between the two titles of the update message, as the source file has
  them: U+00E2, U+2020, U+2019, here in UTF-8.
\<close>

definition arrow :: string where
  "arrow = [CHR 0xC3, CHR 0xA2, CHR 0xE2, CHR 0x80, CHR 0xA0, CHR 0xE2, CHR 0x80, CHR 0x99]"

text \<open>
  The guard \<^verbatim>\<open>!data.tasks[id]\<close> lets a truthy inherited value pass. The update handler
  then assigns \<^verbatim>\<open>title\<close> and \<^verbatim>\<open>description\<close> to that value, which is no part of the
  document: the tasks of the file stay as they are, the history entry is written with
  the title that the value has before and after the assignment (a built-in object takes
  the assignment, a string does not), and \<^verbatim>\<open>res.json\<close> is given the inherited value.
\<close>

definition updateTask ::
  "env \<Rightarrow> boardData \<Rightarrow> string \<Rightarrow> string option \<Rightarrow> string option \<Rightarrow> (srv_error + task) \<times> boardData" where
  "updateTask e file ident title descr =
     (if \<not> read_ok e then (Inl (HttpError 404 ''Task not found''), file)
      else case property e (tasks file) ident of
        Undefined \<Rightarrow> (Inl (HttpError 404 ''Task not found''), file)
      | Own t \<Rightarrow>
          let oldTitle = task_title t;
              t1 = t\<lparr>task_title := (if truthy title then the title else task_title t)\<rparr>;
              t2 = t1\<lparr>description := (case descr of Some d \<Rightarrow> Some d | None \<Rightarrow> description t1)\<rparr>;
              data1 = file\<lparr>tasks := (tasks file)(ident \<mapsto> t2)\<rparr>;
              data2 = addToHistory e data1
                        (''Updated task: \"'' @ oldTitle @ ''\" '' @ arrow @ '' \"'' @ task_title t2 @ ''\"'')
          in if write_ok e then (Inr t2, data2)
             else (Inl (HttpError 500 ''Failed to update task''), file)
      | Inherited v \<Rightarrow>
          let oldTitle = title_of v;
              newTitle = (case v of
                            Builtin t \<Rightarrow> if truthy title then title else t
                          | Text t \<Rightarrow> t);
              data2 = addToHistory e file
                        (''Updated task: \"'' @ template_text oldTitle @ ''\" '' @ arrow
                           @ '' \"'' @ template_text newTitle @ ''\"'')
          in if write_ok e then (Inl Not_a_task, data2)
             else (Inl (HttpError 500 ''Failed to update task''), file))"

text \<open>
  The delete handler filters the id out of every column; \<^verbatim>\<open>delete data.tasks[id]\<close>
  removes an own property and does nothing for an inherited one.
\<close>

definition deleteTask ::
  "env \<Rightarrow> boardData \<Rightarrow> string \<Rightarrow> (srv_error + unit) \<times> boardData" where
  "deleteTask e file ident =
     (if \<not> read_ok e then (Inl (HttpError 404 ''Task not found''), file)
      else case property e (tasks file) ident of
        Undefined \<Rightarrow> (Inl (HttpError 404 ''Task not found''), file)
      | found \<Rightarrow>
          let taskTitle = title_text found;
              data1 = file\<lparr>columns := (\<lambda>k. map_option
                         (\<lambda>c. c\<lparr>taskIds := filter (\<lambda>taskId. taskId \<noteq> ident) (taskIds c)\<rparr>)
                         (columns file k))\<rparr>;
              data2 = data1\<lparr>tasks := (tasks data1)(ident := None)\<rparr>;
              data3 = addToHistory e data2 (''Deleted task: \"'' @ taskTitle @ ''\"'')
          in if write_ok e then (Inr (), data3)
             else (Inl (HttpError 500 ''Failed to delete task''), file))"

text \<open>
  \<^verbatim>\<open>sourceColumn\<close> and \<^verbatim>\<open>destColumn\<close> are references into the parsed document: they are
  one object exactly when the two ids are equal, so the second \<^verbatim>\<open>splice\<close> then works on
  the array the first one has shortened. A column id that names a truthy inherited
  value passes the guard \<^verbatim>\<open>!sourceColumn || !destColumn\<close>; that value has no
  \<^verbatim>\<open>taskIds\<close>, and \<^verbatim>\<open>taskIds.splice\<close> on it throws a \<^verbatim>\<open>TypeError\<close> before anything is
  written.
\<close>

definition moveTask ::
  "env \<Rightarrow> boardData \<Rightarrow> string \<Rightarrow> string \<Rightarrow> string \<Rightarrow> int \<Rightarrow> int \<Rightarrow> (srv_error + bool) \<times> boardData" where
  "moveTask e file ident sourceColumnId destColumnId sourceIndex destIndex =
     (if \<not> read_ok e then (Inl (HttpError 404 ''Task not found''), file)
      else case property e (tasks file) ident of
        Undefined \<Rightarrow> (Inl (HttpError 404 ''Task not found''), file)
      | found \<Rightarrow>
         if property e (columns file) sourceColumnId = Undefined
            \<or> property e (columns file) destColumnId = Undefined
         then (Inl (HttpError 400 ''Invalid column''), file)
         else
          (case (property e (columns file) sourceColumnId, property e (columns file) destColumnId) of
            (Own sourceColumn, Own destColumn) \<Rightarrow>
              let sourceColumn1 = sourceColumn\<lparr>taskIds := splice_js (taskIds sourceColumn) sourceIndex 1 []\<rparr>;
                  destColumn0 = (if sourceColumnId = destColumnId then sourceColumn1 else destColumn);
                  destColumn1 = destColumn0\<lparr>taskIds := splice_js (taskIds destColumn0) destIndex 0 [ident]\<rparr>;
                  data1 = file\<lparr>columns :=
                            (columns file)(sourceColumnId \<mapsto> sourceColumn1, destColumnId \<mapsto> destColumn1)\<rparr>;
                  taskTitle = title_text found;
                  data2 = (if sourceColumnId \<noteq> destColumnId
                           then addToHistory e data1
                                  (''Moved \"'' @ taskTitle @ ''\" from '' @ col_title sourceColumn
                                     @ '' to '' @ col_title destColumn)
                           else data1)
              in if write_ok e then (Inr True, data2)
                 else (Inl (HttpError 500 ''Failed to move task''), file)
          | _ \<Rightarrow> (Inl TypeError, file)))"

text \<open>The mutating requests, and the document after a sequence of them.\<close>

datatype request =
    CreateTask "string option" "string option"
  | UpdateTask string "string option" "string option"
  | DeleteTask string
  | MoveTask string string string int int

fun handle :: "boardData \<Rightarrow> env \<times> request \<Rightarrow> boardData" where
  "handle file (e, CreateTask title descr) = snd (createTask e file title descr)"
| "handle file (e, UpdateTask ident title descr) = snd (updateTask e file ident title descr)"
| "handle file (e, DeleteTask ident) = snd (deleteTask e file ident)"
| "handle file (e, MoveTask ident src dst si di) = snd (moveTask e file ident src dst si di)"

fun run :: "boardData \<Rightarrow> (env \<times> request) list \<Rightarrow> boardData" where
  "run file [] = file"
| "run file (r # rs) = run (handle file r) rs"

section \<open>The client store, on values\<close>

text \<open>
  The store of src/kanban-frontend/src/store.ts. In its state, \<open>boardData = None\<close> is
  \<^verbatim>\<open>null\<close>, and so is \<open>error = None\<close>; \<open>filter_text\<close> is the field \<^verbatim>\<open>filter\<close>.
\<close>

record taskStore =
  boardData :: "boardData option"
  isLoading :: bool
  error :: "string option"
  filter_text :: string












text \<open>
  The optimistic update of \<^verbatim>\<open>moveTask\<close>, on the value of the board. A column id that
  is no own key of the columns gives the spread of \<^verbatim>\<open>undefined\<close> or of an inherited
  value, in both cases an object without \<^verbatim>\<open>taskIds\<close>, and spreading that
  \<^verbatim>\<open>undefined\<close> into an array throws a \<^verbatim>\<open>TypeError\<close>, outside the \<^verbatim>\<open>try\<close> block.
  When the two ids are equal, \<^verbatim>\<open>destColumn\<close> is the object \<^verbatim>\<open>sourceColumn\<close>, so the
  second \<^verbatim>\<open>splice\<close> works on the shortened array and the one object is stored under
  the one key.
\<close>

datatype uncaught = Uncaught_TypeError

definition moveTask_optimistic ::
  "boardData \<Rightarrow> string \<Rightarrow> string \<Rightarrow> string \<Rightarrow> int \<Rightarrow> int \<Rightarrow> uncaught + boardData" where
  "moveTask_optimistic currentData taskId sourceColumnId destColumnId sourceIndex destIndex =
     (case columns currentData sourceColumnId of
        None \<Rightarrow> Inl Uncaught_TypeError
      | Some sourceColumn \<Rightarrow>
          let sourceColumn1 = sourceColumn\<lparr>taskIds := splice_js (taskIds sourceColumn) sourceIndex 1 []\<rparr>
          in case (if sourceColumnId = destColumnId then Some sourceColumn1
                   else columns currentData destColumnId) of
               None \<Rightarrow> Inl Uncaught_TypeError
             | Some destColumn \<Rightarrow>
                 let destColumn1 = destColumn\<lparr>taskIds := splice_js (taskIds destColumn) destIndex 0 [taskId]\<rparr>
                 in Inr (currentData\<lparr>columns :=
                      (columns currentData)(sourceColumnId \<mapsto> sourceColumn1, destColumnId \<mapsto> destColumn1)\<rparr>))"


section \<open>The optimistic update of the client, on objects\<close>

text \<open>
  The same code with the identity of its objects: the store holds a reference to a board
  object, whose fields are references to the dictionary of tasks, the dictionary of
  columns, the array of the column order and the history; a column object holds a
  reference to its array of task ids. An object spread and an array spread allocate a new
  object; \<^verbatim>\<open>splice\<close> changes the array it is called on.
\<close>

type_synonym addr = nat

datatype obj =
    Board_obj addr addr addr "addr option"
  | Tasks_obj "string \<rightharpoonup> task"
  | Columns_obj "string \<rightharpoonup> addr"
  | Column_obj string string addr
  | Array_obj "string list"
  | History_obj "historyEntry list"

record heap =
  objs :: "addr \<rightharpoonup> obj"
  next_addr :: addr

definition alloc :: "obj \<Rightarrow> heap \<Rightarrow> addr \<times> heap" where
  "alloc ob h = (next_addr h, h\<lparr>objs := (objs h)(next_addr h \<mapsto> ob), next_addr := Suc (next_addr h)\<rparr>)"

text \<open>\<^verbatim>\<open>{ ...columns[key] }\<close>: a new object with the fields of the column under the key.\<close>

definition spread_column :: "heap \<Rightarrow> addr option \<Rightarrow> (addr \<times> heap) option" where
  "spread_column h entry =
     (case entry of
        None \<Rightarrow> None
      | Some a \<Rightarrow>
          (case objs h a of
             Some (Column_obj i t arr) \<Rightarrow> Some (alloc (Column_obj i t arr) h)
           | _ \<Rightarrow> None))"

text \<open>\<^verbatim>\<open>column.taskIds = [...column.taskIds]\<close>: a new array, stored in the field.\<close>

definition copy_taskIds :: "heap \<Rightarrow> addr \<Rightarrow> (addr \<times> heap) option" where
  "copy_taskIds h col =
     (case objs h col of
        Some (Column_obj i t arr) \<Rightarrow>
          (case objs h arr of
             Some (Array_obj xs) \<Rightarrow>
               let (arr', h1) = alloc (Array_obj xs) h
               in Some (arr', h1\<lparr>objs := (objs h1)(col \<mapsto> Column_obj i t arr')\<rparr>)
           | _ \<Rightarrow> None)
      | _ \<Rightarrow> None)"

text \<open>\<^verbatim>\<open>column.taskIds.splice(start, deleteCount, ...items)\<close>: the array is changed in place.\<close>

definition splice_taskIds :: "heap \<Rightarrow> addr \<Rightarrow> int \<Rightarrow> int \<Rightarrow> string list \<Rightarrow> heap option" where
  "splice_taskIds h col start deleteCount items =
     (case objs h col of
        Some (Column_obj i t arr) \<Rightarrow>
          (case objs h arr of
             Some (Array_obj xs) \<Rightarrow>
               Some (h\<lparr>objs := (objs h)(arr \<mapsto> Array_obj (splice_js xs start deleteCount items))\<rparr>)
           | _ \<Rightarrow> None)
      | _ \<Rightarrow> None)"

text \<open>
  The optimistic update, statement by statement:
  \<^item> \<^verbatim>\<open>newData = { ...currentData }\<close> allocates a board with the fields of the current one;
  \<^item> \<^verbatim>\<open>sourceColumn = { ...newData.columns[sourceColumnId] }\<close> allocates a column;
  \<^item> \<^verbatim>\<open>destColumn\<close> is that same object when the two ids are equal, a second new column
    otherwise;
  \<^item> \<^verbatim>\<open>sourceColumn.taskIds = [...sourceColumn.taskIds]\<close> and the \<^verbatim>\<open>splice\<close> on it, then
    the same two statements on \<^verbatim>\<open>destColumn\<close>;
  \<^item> \<^verbatim>\<open>newData.columns = { ...newData.columns, [sourceColumnId]: sourceColumn,
    [destColumnId]: destColumn }\<close> allocates a dictionary and stores it in the new board.

  The result is the reference that \<^verbatim>\<open>set({ boardData: newData })\<close> puts in the store, and
  the heap. A column id that the dictionary does not have ends in the \<^verbatim>\<open>TypeError\<close>
  described above.
\<close>

definition moveTask_optimistic_heap ::
  "heap \<Rightarrow> addr \<Rightarrow> string \<Rightarrow> string \<Rightarrow> string \<Rightarrow> int \<Rightarrow> int \<Rightarrow> uncaught + (addr \<times> heap)" where
  "moveTask_optimistic_heap h currentData taskId sourceColumnId destColumnId sourceIndex destIndex =
     (case objs h currentData of
        Some (Board_obj ta ca oa ha) \<Rightarrow>
          (case objs h ca of
             Some (Columns_obj m) \<Rightarrow>
               let (newData, h1) = alloc (Board_obj ta ca oa ha) h
               in (case spread_column h1 (m sourceColumnId) of
                     None \<Rightarrow> Inl Uncaught_TypeError
                   | Some (sourceColumn, h2) \<Rightarrow>
                       (case (if sourceColumnId = destColumnId then Some (sourceColumn, h2)
                              else spread_column h2 (m destColumnId)) of
                          None \<Rightarrow> Inl Uncaught_TypeError
                        | Some (destColumn, h3) \<Rightarrow>
                            (case copy_taskIds h3 sourceColumn of
                               None \<Rightarrow> Inl Uncaught_TypeError
                             | Some (arr1, h4) \<Rightarrow>
                                 (case splice_taskIds h4 sourceColumn sourceIndex 1 [] of
                                    None \<Rightarrow> Inl Uncaught_TypeError
                                  | Some h5 \<Rightarrow>
                                      (case copy_taskIds h5 destColumn of
                                         None \<Rightarrow> Inl Uncaught_TypeError
                                       | Some (arr2, h6) \<Rightarrow>
                                           (case splice_taskIds h6 destColumn destIndex 0 [taskId] of
                                              None \<Rightarrow> Inl Uncaught_TypeError
                                            | Some h7 \<Rightarrow>
                                                let (cols, h8) = alloc (Columns_obj
                                                      (m(sourceColumnId \<mapsto> sourceColumn,
                                                         destColumnId \<mapsto> destColumn))) h7;
                                                    h9 = h8\<lparr>objs := (objs h8)(newData \<mapsto> Board_obj ta cols oa ha)\<rparr>
                                                in Inr (newData, h9)))))))
           | _ \<Rightarrow> Inl Uncaught_TypeError)
      | _ \<Rightarrow> Inl Uncaught_TypeError)"

section \<open>Notions used to state the properties\<close>

text \<open>
  An environment in which reading and writing the file succeed, in a process whose
  \<^verbatim>\<open>Object.prototype\<close> is as the runtime created it.
\<close>

definition env_ok :: "string \<Rightarrow> string \<Rightarrow> string \<Rightarrow> env" where
  "env_ok u h now = \<lparr> uuid_task = u, uuid_hist = h, now_task = now, now_hist = now,
                      read_ok = True, write_ok = True, object_prototype = runtime_prototype \<rparr>"

text \<open>The history as \<^verbatim>\<open>GET /api/history\<close> reads it: \<^verbatim>\<open>data.history || []\<close>.\<close>

definition history_or_empty :: "boardData \<Rightarrow> historyEntry list" where
  "history_or_empty data = (case history data of None \<Rightarrow> [] | Some h \<Rightarrow> h)"

text \<open>What identifies a history entry: its id and its time.\<close>

definition stamp :: "historyEntry \<Rightarrow> string \<times> string" where
  "stamp h = (hist_id h, timestamp h)"

text \<open>
  The requests that are logged: those that the handler carries through to the written
  file, except a move within one column. The stamps of the entries that a sequence of
  requests logs, in the order of the requests.
\<close>

fun logged :: "boardData \<Rightarrow> env \<times> request \<Rightarrow> bool" where
  "logged d (e, CreateTask title descr) =
     (truthy title \<and> read_ok e \<and> write_ok e \<and> columns d ''todo'' \<noteq> None)"
| "logged d (e, UpdateTask ident title descr) =
     (read_ok e \<and> write_ok e \<and> property e (tasks d) ident \<noteq> Undefined)"
| "logged d (e, DeleteTask ident) =
     (read_ok e \<and> write_ok e \<and> property e (tasks d) ident \<noteq> Undefined)"
| "logged d (e, MoveTask ident src dst si di) =
     (read_ok e \<and> write_ok e \<and> property e (tasks d) ident \<noteq> Undefined
      \<and> columns d src \<noteq> None \<and> columns d dst \<noteq> None \<and> src \<noteq> dst)"

fun stamps_logged :: "boardData \<Rightarrow> (env \<times> request) list \<Rightarrow> (string \<times> string) list" where
  "stamps_logged d [] = []"
| "stamps_logged d (r # rs) =
     (if logged d r then [(uuid_hist (fst r), now_hist (fst r))] else []) @ stamps_logged (handle d r) rs"

text \<open>A request is carried out when the handler answers without an error.\<close>

definition carried_out :: "(srv_error + 'a) \<times> boardData \<Rightarrow> bool" where
  "carried_out r = (case fst r of Inl err \<Rightarrow> False | Inr ok \<Rightarrow> True)"

text \<open>
  A request is well addressed when it names what is there: a create request that is
  carried out comes with an id that is new to the tasks (no own key, and no name under
  which the tasks inherit something), and the element that \<^verbatim>\<open>splice(sourceIndex, 1)\<close>
  takes out of the source column of a move request that is carried out is the task that
  the request moves. A create or move request that is rejected, an update request and a
  delete request are well addressed.
\<close>

fun well_addressed :: "boardData \<Rightarrow> env \<times> request \<Rightarrow> bool" where
  "well_addressed file (e, CreateTask title descr) =
     (if carried_out (createTask e file title descr)
      then property e (tasks file) (uuid_task e) = Undefined else True)"
| "well_addressed file (e, MoveTask ident src dst si di) =
     (if carried_out (moveTask e file ident src dst si di)
      then (case columns file src of
              None \<Rightarrow> False
            | Some sc \<Rightarrow> (let s = actualStart (length (taskIds sc)) si
                         in s < length (taskIds sc) \<and> taskIds sc ! s = ident))
      else True)"
| "well_addressed file (e, UpdateTask ident title descr) = True"
| "well_addressed file (e, DeleteTask ident) = True"

fun well_addressed_run :: "boardData \<Rightarrow> (env \<times> request) list \<Rightarrow> bool" where
  "well_addressed_run file [] = True"
| "well_addressed_run file (r # rs) = (well_addressed file r \<and> well_addressed_run (handle file r) rs)"

text \<open>
  The invariant behind the membership property: no column lists a task twice, every
  listed id is a key of \<open>tasks\<close>, and two different columns share no id.
\<close>

definition columns_inv :: "boardData \<Rightarrow> bool" where
  "columns_inv data \<longleftrightarrow>
     (\<forall>c col. columns data c = Some col \<longrightarrow>
        distinct (taskIds col) \<and> set (taskIds col) \<subseteq> dom (tasks data)) \<and>
     (\<forall>c1 c2 col1 col2. columns data c1 = Some col1 \<and> columns data c2 = Some col2 \<and> c1 \<noteq> c2 \<longrightarrow>
        set (taskIds col1) \<inter> set (taskIds col2) = {})"

text \<open>A document whose first column is not \<^verbatim>\<open>todo\<close>.\<close>

definition two_columns :: boardData where
  "two_columns =
     \<lparr> tasks = Map.empty,
       columns = [''backlog'' \<mapsto> \<lparr> col_id = ''backlog'', col_title = ''Backlog'', taskIds = [] \<rparr>,
                  ''todo'' \<mapsto> \<lparr> col_id = ''todo'', col_title = ''To Do'', taskIds = [] \<rparr>],
       columnOrder = [''backlog'', ''todo''],
       history = Some [] \<rparr>"

text \<open>
  The board of the store's tests (\<^verbatim>\<open>mockBoardData\<close> of store.test.ts), and a store that
  holds a board.
\<close>

definition mockBoardData :: boardData where
  "mockBoardData =
     \<lparr> tasks = [''task-1'' \<mapsto> \<lparr> task_id = ''task-1'', task_title = ''Task 1'',
                                    description = Some ''Description 1'', createdAt = ''2024-01-01T00:00:00Z'' \<rparr>,
                ''task-2'' \<mapsto> \<lparr> task_id = ''task-2'', task_title = ''Task 2'',
                                    description = None, createdAt = ''2024-01-02T00:00:00Z'' \<rparr>],
       columns = [''column-1'' \<mapsto> \<lparr> col_id = ''column-1'', col_title = ''To Do'', taskIds = [''task-1''] \<rparr>,
                  ''column-2'' \<mapsto> \<lparr> col_id = ''column-2'', col_title = ''In Progress'', taskIds = [''task-2''] \<rparr>,
                  ''column-3'' \<mapsto> \<lparr> col_id = ''column-3'', col_title = ''Done'', taskIds = [] \<rparr>],
       columnOrder = [''column-1'', ''column-2'', ''column-3''],
       history = Some [] \<rparr>"


text \<open>
  The move in the words of its description: remove the element at an index, and insert an
  element at an index.
\<close>

definition remove_at :: "nat \<Rightarrow> 'a list \<Rightarrow> 'a list" where
  "remove_at i xs = take i xs @ drop (Suc i) xs"

definition insert_at :: "nat \<Rightarrow> 'a \<Rightarrow> 'a list \<Rightarrow> 'a list" where
  "insert_at i x xs = take i xs @ x # drop i xs"

text \<open>
  The board that an object stands for: each reference followed to its value. A column
  whose objects are not there reads as absent.
\<close>

definition read_column :: "heap \<Rightarrow> addr \<Rightarrow> column option" where
  "read_column h a =
     (case objs h a of
        Some (Column_obj i t arr) \<Rightarrow>
          (case objs h arr of
             Some (Array_obj xs) \<Rightarrow> Some \<lparr> col_id = i, col_title = t, taskIds = xs \<rparr>
           | _ \<Rightarrow> None)
      | _ \<Rightarrow> None)"

definition read_board :: "heap \<Rightarrow> addr \<Rightarrow> boardData option" where
  "read_board h a =
     (case objs h a of
        Some (Board_obj ta ca oa ha) \<Rightarrow>
          (case (objs h ta, objs h ca, objs h oa) of
             (Some (Tasks_obj ts), Some (Columns_obj m), Some (Array_obj order)) \<Rightarrow>
               Some \<lparr> tasks = ts,
                      columns = (\<lambda>k. case m k of None \<Rightarrow> None | Some c \<Rightarrow> read_column h c),
                      columnOrder = order,
                      history = (case ha of
                                   None \<Rightarrow> None
                                 | Some hh \<Rightarrow> (case objs h hh of Some (History_obj es) \<Rightarrow> Some es | _ \<Rightarrow> None)) \<rparr>
           | _ \<Rightarrow> None)
      | _ \<Rightarrow> None)"

text \<open>
  A heap is well formed when every object is below the allocation pointer and every
  reference held by an object leads to an object.
\<close>

fun refs :: "obj \<Rightarrow> addr set" where
  "refs (Board_obj ta ca oa ha) = {ta, ca, oa} \<union> set_option ha"
| "refs (Columns_obj m) = ran m"
| "refs (Column_obj i t arr) = {arr}"
| "refs (Tasks_obj ts) = {}"
| "refs (Array_obj xs) = {}"
| "refs (History_obj es) = {}"

definition wf_heap :: "heap \<Rightarrow> bool" where
  "wf_heap h \<longleftrightarrow>
     (\<forall>a \<in> dom (objs h). a < next_addr h) \<and>
     (\<forall>a ob. objs h a = Some ob \<longrightarrow> refs ob \<subseteq> dom (objs h))"

text \<open>The board of the tests, as objects.\<close>

definition heap0 :: heap where
  "heap0 = \<lparr> objs = [0 \<mapsto> Board_obj 1 2 3 (Some 4),
                     1 \<mapsto> Tasks_obj (tasks mockBoardData),
                     2 \<mapsto> Columns_obj [''column-1'' \<mapsto> 5, ''column-2'' \<mapsto> 7, ''column-3'' \<mapsto> 9],
                     3 \<mapsto> Array_obj [''column-1'', ''column-2'', ''column-3''],
                     4 \<mapsto> History_obj [],
                     5 \<mapsto> Column_obj ''column-1'' ''To Do'' 6,
                     6 \<mapsto> Array_obj [''task-1''],
                     7 \<mapsto> Column_obj ''column-2'' ''In Progress'' 8,
                     8 \<mapsto> Array_obj [''task-2''],
                     9 \<mapsto> Column_obj ''column-3'' ''Done'' 10,
                     10 \<mapsto> Array_obj []],
             next_addr = 11 \<rparr>"

section \<open>Own and inherited properties\<close>

lemma property_Some [simp]: "m k = Some v \<Longrightarrow> property e m k = Own v"
  by (simp add: property_def)

lemma property_Own_iff [simp]: "property e m k = Own v \<longleftrightarrow> m k = Some v"
  by (auto simp: property_def split: option.splits)

lemma property_None:
  "m k = None \<Longrightarrow>
     property e m k = (case object_prototype e k of Some v \<Rightarrow> Inherited v | None \<Rightarrow> Undefined)"
  by (simp add: property_def)

lemma property_Undefined_iff:
  "property e m k = Undefined \<longleftrightarrow> m k = None \<and> object_prototype e k = None"
  by (auto simp: property_def split: option.splits)

lemma property_Inherited_iff:
  "property e m k = Inherited v \<longleftrightarrow> m k = None \<and> object_prototype e k = Some v"
  by (auto simp: property_def split: option.splits)

lemma property_not_Own: "m k = None \<Longrightarrow> property e m k \<noteq> Own v"
  by simp

section \<open>Lemmas on \<open>splice_js\<close>\<close>

lemma actualStart_le: "actualStart n i \<le> n"
proof (cases "i < 0")
  case True
  then have "max (int n + i) 0 \<le> int n" by simp
  then have "nat (max (int n + i) 0) \<le> n" by linarith
  then show ?thesis using True by (simp add: actualStart_def)
next
  case False
  then show ?thesis by (simp add: actualStart_def)
qed

lemma splice_delete1:
  "splice_js xs i 1 [] = take (actualStart (length xs) i) xs @ drop (Suc (actualStart (length xs) i)) xs"
proof (cases "actualStart (length xs) i < length xs")
  case True
  then have "min (Suc 0) (length xs - actualStart (length xs) i) = Suc 0" by simp
  then show ?thesis by (simp add: splice_js_def Let_def)
next
  case False
  then have "actualStart (length xs) i = length xs"
    using actualStart_le [of "length xs" i] by simp
  then show ?thesis by (simp add: splice_js_def Let_def)
qed

lemma splice_insert1:
  "splice_js xs i 0 [x] = take (actualStart (length xs) i) xs @ x # drop (actualStart (length xs) i) xs"
  by (simp add: splice_js_def Let_def)

lemma set_splice_delete1_subset: "set (splice_js xs i 1 []) \<subseteq> set xs"
  unfolding splice_delete1 by (auto dest: in_set_takeD in_set_dropD)

lemma distinct_take_drop: "distinct xs \<Longrightarrow> m \<le> n \<Longrightarrow> distinct (take m xs @ drop n xs)"
proof (induction xs arbitrary: m n)
  case Nil
  then show ?case by simp
next
  case (Cons a xs)
  show ?case
  proof (cases m)
    case 0
    then show ?thesis using Cons.prems(1) by (simp add: distinct_drop)
  next
    case (Suc m')
    then obtain n' where n: "n = Suc n'" using Cons.prems(2) by (cases n) auto
    have "a \<notin> set (take m' xs)" "a \<notin> set (drop n' xs)"
      using Cons.prems(1) by (auto dest: in_set_takeD in_set_dropD)
    then show ?thesis using Cons Suc n by simp
  qed
qed

lemma distinct_splice_delete1: "distinct xs \<Longrightarrow> distinct (splice_js xs i 1 [])"
  unfolding splice_delete1 by (rule distinct_take_drop) simp_all

lemma set_splice_delete1:
  assumes "distinct xs" "actualStart (length xs) i < length xs"
  shows "set (splice_js xs i 1 []) = set xs - {xs ! actualStart (length xs) i}"
proof -
  let ?s = "actualStart (length xs) i"
  have xs: "xs = take ?s xs @ xs ! ?s # drop (Suc ?s) xs"
    using assms(2) by (simp add: id_take_nth_drop)
  have d: "distinct (take ?s xs @ xs ! ?s # drop (Suc ?s) xs)"
    using assms(1) xs by simp
  have "set xs = set (take ?s xs) \<union> {xs ! ?s} \<union> set (drop (Suc ?s) xs)"
    by (subst xs) auto
  moreover have "xs ! ?s \<notin> set (take ?s xs)" "xs ! ?s \<notin> set (drop (Suc ?s) xs)"
    using d by auto
  ultimately show ?thesis unfolding splice_delete1 by auto
qed

lemma set_splice_insert1: "set (splice_js xs i 0 [x]) = insert x (set xs)"
proof -
  have "set xs = set (take (actualStart (length xs) i) xs) \<union> set (drop (actualStart (length xs) i) xs)"
    by (metis append_take_drop_id set_append)
  then show ?thesis unfolding splice_insert1 by auto
qed

lemma distinct_splice_insert1:
  assumes "distinct xs" "x \<notin> set xs"
  shows "distinct (splice_js xs i 0 [x])"
proof -
  let ?s = "actualStart (length xs) i"
  have "distinct (take ?s xs) \<and> distinct (drop ?s xs) \<and> set (take ?s xs) \<inter> set (drop ?s xs) = {}"
    using distinct_take_drop [OF assms(1) order_refl, of ?s] by (simp only: distinct_append)
  moreover have "x \<notin> set (take ?s xs)" "x \<notin> set (drop ?s xs)"
    using assms(2) by (auto dest: in_set_takeD in_set_dropD)
  ultimately show ?thesis unfolding splice_insert1 by auto
qed

section \<open>The column invariant is kept by every well addressed request\<close>

lemma columns_invI:
  assumes "\<And>c col. columns data c = Some col \<Longrightarrow> distinct (taskIds col)"
    and "\<And>c col x. columns data c = Some col \<Longrightarrow> x \<in> set (taskIds col) \<Longrightarrow> tasks data x \<noteq> None"
    and "\<And>c1 c2 col1 col2 x. columns data c1 = Some col1 \<Longrightarrow> columns data c2 = Some col2 \<Longrightarrow>
           x \<in> set (taskIds col1) \<Longrightarrow> x \<in> set (taskIds col2) \<Longrightarrow> c1 = c2"
  shows "columns_inv data"
  unfolding columns_inv_def
proof (intro conjI allI impI)
  fix c col assume "columns data c = Some col"
  then show "distinct (taskIds col)" by (rule assms(1))
next
  fix c col assume c: "columns data c = Some col"
  show "set (taskIds col) \<subseteq> dom (tasks data)"
    using assms(2) [OF c] by (auto simp: domIff)
next
  fix c1 c2 col1 col2
  assume "columns data c1 = Some col1 \<and> columns data c2 = Some col2 \<and> c1 \<noteq> c2"
  then show "set (taskIds col1) \<inter> set (taskIds col2) = {}"
    using assms(3) [of c1 col1 c2 col2] by (auto simp: disjoint_iff)
qed

lemma columns_inv_distinct: "columns_inv data \<Longrightarrow> columns data c = Some col \<Longrightarrow> distinct (taskIds col)"
  unfolding columns_inv_def by blast

lemma columns_inv_tasks:
  "columns_inv data \<Longrightarrow> columns data c = Some col \<Longrightarrow> x \<in> set (taskIds col) \<Longrightarrow> tasks data x \<noteq> None"
  unfolding columns_inv_def by (meson domIff subsetD)

lemma columns_inv_unique:
  "columns_inv data \<Longrightarrow> columns data c1 = Some col1 \<Longrightarrow> columns data c2 = Some col2 \<Longrightarrow>
     x \<in> set (taskIds col1) \<Longrightarrow> x \<in> set (taskIds col2) \<Longrightarrow> c1 = c2"
  unfolding columns_inv_def by (meson disjoint_iff)

lemma columns_inv_initialData: "columns_inv (initialData now)"
  by (rule columns_invI) (auto simp: initialData_def split: if_splits)

lemma columns_inv_addToHistory [simp]: "columns_inv (addToHistory e data a) = columns_inv data"
  by (simp add: columns_inv_def addToHistory_def Let_def)

lemma columns_inv_created:
  assumes inv: "columns_inv file" and fresh: "tasks file u = None"
    and todo: "columns file ''todo'' = Some todo"
  shows "columns_inv (file\<lparr>tasks := (tasks file)(u \<mapsto> t),
             columns := (columns file)(''todo'' \<mapsto> todo\<lparr>taskIds := taskIds todo @ [u]\<rparr>)\<rparr>)"
    (is "columns_inv ?d")
proof (rule columns_invI)
  have nu: "u \<notin> set (taskIds col)" if "columns file c = Some col" for c col
    using columns_inv_tasks [OF inv that, of u] fresh by auto
  { fix c col assume c: "columns ?d c = Some col"
    show "distinct (taskIds col)"
    proof (cases "c = ''todo''")
      case True
      then have "col = todo\<lparr>taskIds := taskIds todo @ [u]\<rparr>" using c by simp
      then show ?thesis using columns_inv_distinct [OF inv todo] nu [OF todo] by simp
    next
      case False
      then show ?thesis using c columns_inv_distinct [OF inv] by simp
    qed }
  { fix c col x assume c: "columns ?d c = Some col" and x: "x \<in> set (taskIds col)"
    show "tasks ?d x \<noteq> None"
    proof (cases "c = ''todo''")
      case True
      then have "col = todo\<lparr>taskIds := taskIds todo @ [u]\<rparr>" using c by simp
      then show ?thesis using x columns_inv_tasks [OF inv todo] by auto
    next
      case False
      then show ?thesis using c x columns_inv_tasks [OF inv] by auto
    qed }
  { fix c1 c2 col1 col2 x
    assume c1: "columns ?d c1 = Some col1" and c2: "columns ?d c2 = Some col2"
      and x1: "x \<in> set (taskIds col1)" and x2: "x \<in> set (taskIds col2)"
    have old: "\<exists>col'. columns file c = Some col' \<and> (x \<in> set (taskIds col') \<or> (x = u \<and> c = ''todo''))"
      if "columns ?d c = Some col" "x \<in> set (taskIds col)" for c col
      using that todo by (cases "c = ''todo''") auto
    from old [OF c1 x1] old [OF c2 x2] show "c1 = c2"
      using columns_inv_unique [OF inv] nu by blast }
qed

lemma columns_inv_createTask:
  assumes "columns_inv file" "tasks file (uuid_task e) = None"
  shows "columns_inv (snd (createTask e file title descr))"
  using assms columns_inv_created [OF assms]
  by (auto simp: createTask_def Let_def split: option.splits)

lemma columns_inv_updateTask:
  assumes "columns_inv file"
  shows "columns_inv (snd (updateTask e file ident title descr))"
proof -
  have "columns_inv (file\<lparr>tasks := (tasks file)(ident \<mapsto> t)\<rparr>)" for t
    using assms unfolding columns_inv_def by (auto simp: subset_iff domIff)
  then show ?thesis using assms
    by (auto simp: updateTask_def Let_def split: property.splits)
qed

lemma columns_inv_deleted:
  assumes inv: "columns_inv file"
  shows "columns_inv (file\<lparr>columns := (\<lambda>k. map_option
                         (\<lambda>c. c\<lparr>taskIds := filter (\<lambda>taskId. taskId \<noteq> ident) (taskIds c)\<rparr>)
                         (columns file k)), tasks := (tasks file)(ident := None)\<rparr>)"
    (is "columns_inv ?d")
proof (rule columns_invI)
  have old: "\<exists>col'. columns file c = Some col' \<and> taskIds col = filter (\<lambda>taskId. taskId \<noteq> ident) (taskIds col')"
    if "columns ?d c = Some col" for c col
    using that by (cases "columns file c") auto
  { fix c col assume c: "columns ?d c = Some col"
    from old [OF c] show "distinct (taskIds col)"
      using columns_inv_distinct [OF inv] by auto }
  { fix c col x assume c: "columns ?d c = Some col" and x: "x \<in> set (taskIds col)"
    from old [OF c] x show "tasks ?d x \<noteq> None"
      using columns_inv_tasks [OF inv] by auto }
  { fix c1 c2 col1 col2 x
    assume c1: "columns ?d c1 = Some col1" and c2: "columns ?d c2 = Some col2"
      and x1: "x \<in> set (taskIds col1)" and x2: "x \<in> set (taskIds col2)"
    from old [OF c1] old [OF c2] x1 x2 show "c1 = c2"
      using columns_inv_unique [OF inv] by auto }
qed

lemma columns_inv_deleteTask:
  assumes "columns_inv file"
  shows "columns_inv (snd (deleteTask e file ident))"
  using assms columns_inv_deleted [OF assms]
  by (auto simp: deleteTask_def Let_def split: property.splits)

lemma columns_inv_moved:
  fixes si di :: int
  assumes inv: "columns_inv file"
    and t: "tasks file ident = Some t"
    and sc: "columns file src = Some sc" and dc: "columns file dst = Some dc"
    and s: "actualStart (length (taskIds sc)) si < length (taskIds sc)"
    and at: "taskIds sc ! actualStart (length (taskIds sc)) si = ident"
  defines "sc1 \<equiv> sc\<lparr>taskIds := splice_js (taskIds sc) si 1 []\<rparr>"
  defines "dc0 \<equiv> (if src = dst then sc1 else dc)"
  defines "dc1 \<equiv> dc0\<lparr>taskIds := splice_js (taskIds dc0) di 0 [ident]\<rparr>"
  shows "columns_inv (file\<lparr>columns := (columns file)(src \<mapsto> sc1, dst \<mapsto> dc1)\<rparr>)"
    (is "columns_inv ?d")
proof -
  have dsc: "distinct (taskIds sc)" by (rule columns_inv_distinct [OF inv sc])
  have in_sc: "ident \<in> set (taskIds sc)" using s at nth_mem by blast
  have set_sc1: "set (taskIds sc1) = set (taskIds sc) - {ident}"
    using set_splice_delete1 [OF dsc s] at by (simp add: sc1_def)
  have d_sc1: "distinct (taskIds sc1)"
    using distinct_splice_delete1 [OF dsc] by (simp add: sc1_def)
  have not_dc: "ident \<notin> set (taskIds dc)" if "src \<noteq> dst"
    using columns_inv_unique [OF inv sc dc in_sc] that by blast
  have set_dc0: "set (taskIds dc0) = set (taskIds dc) - {ident}"
  proof (cases "src = dst")
    case True
    then show ?thesis using set_sc1 sc dc by (simp add: dc0_def)
  next
    case False
    then show ?thesis using not_dc by (simp add: dc0_def)
  qed
  have d_dc0: "distinct (taskIds dc0)"
    using d_sc1 columns_inv_distinct [OF inv dc] by (simp add: dc0_def)
  have set_dc1: "set (taskIds dc1) = insert ident (set (taskIds dc))"
    using set_dc0 by (auto simp: dc1_def set_splice_insert1)
  have d_dc1: "distinct (taskIds dc1)"
    using distinct_splice_insert1 [OF d_dc0, of ident di] set_dc0 by (simp add: dc1_def)
  have old: "\<exists>col. columns file c = Some col \<and> distinct (taskIds col') \<and>
               set (taskIds col') = (if c = dst then insert ident (set (taskIds col))
                                     else if c = src then set (taskIds col) - {ident}
                                     else set (taskIds col))"
    if "columns ?d c = Some col'" for c col'
  proof (cases "c = dst")
    case True
    then have "col' = dc1" using that by simp
    then show ?thesis using True dc set_dc1 d_dc1 by simp
  next
    case ndst: False
    show ?thesis
    proof (cases "c = src")
      case True
      then have "col' = sc1" using that ndst by simp
      then show ?thesis using True ndst sc set_sc1 d_sc1 by simp
    next
      case False
      then have "columns file c = Some col'" using that ndst by simp
      then show ?thesis using False ndst columns_inv_distinct [OF inv] by simp
    qed
  qed
  have only_dst: "c = dst"
    if "columns ?d c = Some col'" "ident \<in> set (taskIds col')" for c col'
  proof (rule ccontr)
    assume n: "c \<noteq> dst"
    from old [OF that(1)] obtain col where col: "columns file c = Some col"
      and st: "set (taskIds col') = (if c = src then set (taskIds col) - {ident} else set (taskIds col))"
      using n by auto
    show False
    proof (cases "c = src")
      case True
      then show ?thesis using st that(2) by simp
    next
      case False
      then have "ident \<in> set (taskIds col)" using st that(2) by simp
      then have "c = src" using columns_inv_unique [OF inv col sc _ in_sc] by simp
      then show ?thesis using False by simp
    qed
  qed
  have in_old: "\<exists>col. columns file c = Some col \<and> x \<in> set (taskIds col)"
    if "columns ?d c = Some col'" "x \<in> set (taskIds col')" "x \<noteq> ident" for c col' x
    using old [OF that(1)] that(2,3) by (auto split: if_splits)
  show ?thesis
  proof (rule columns_invI)
    fix c col assume "columns ?d c = Some col"
    then show "distinct (taskIds col)" using old by blast
  next
    fix c col x assume c: "columns ?d c = Some col" and x: "x \<in> set (taskIds col)"
    show "tasks ?d x \<noteq> None"
    proof (cases "x = ident")
      case True
      then show ?thesis using t by simp
    next
      case False
      from in_old [OF c x False] show ?thesis
        using columns_inv_tasks [OF inv] by auto
    qed
  next
    fix c1 c2 col1 col2 x
    assume c1: "columns ?d c1 = Some col1" and c2: "columns ?d c2 = Some col2"
      and x1: "x \<in> set (taskIds col1)" and x2: "x \<in> set (taskIds col2)"
    show "c1 = c2"
    proof (cases "x = ident")
      case True
      then show ?thesis using only_dst [OF c1] only_dst [OF c2] x1 x2 by simp
    next
      case False
      from in_old [OF c1 x1 False] in_old [OF c2 x2 False] show ?thesis
        using columns_inv_unique [OF inv] by blast
    qed
  qed
qed

lemma createTask_rejected: "\<not> carried_out (createTask e d title descr) \<Longrightarrow> snd (createTask e d title descr) = d"
  by (auto simp: carried_out_def createTask_def Let_def split: option.splits if_splits)

lemma moveTask_rejected:
  "\<not> carried_out (moveTask e d ident src dst si di) \<Longrightarrow> snd (moveTask e d ident src dst si di) = d"
  by (auto simp: carried_out_def moveTask_def Let_def split: property.splits if_splits)

lemma moveTask_carried_out:
  "carried_out (moveTask e d ident src dst si di) \<longleftrightarrow>
     read_ok e \<and> write_ok e \<and> property e (tasks d) ident \<noteq> Undefined
     \<and> columns d src \<noteq> None \<and> columns d dst \<noteq> None"
proof (cases "\<exists>sc dc. columns d src = Some sc \<and> columns d dst = Some dc")
  case True
  then obtain sc dc where "columns d src = Some sc" "columns d dst = Some dc" by blast
  then show ?thesis
    by (auto simp: carried_out_def moveTask_def Let_def split: property.splits)
next
  case False
  then have "columns d src = None \<or> columns d dst = None" by auto
  then have "\<not> carried_out (moveTask e d ident src dst si di)"
    by (auto simp: carried_out_def moveTask_def Let_def property_None split: property.splits)
  then show ?thesis using False by auto
qed

lemma columns_inv_createTask_addressed:
  assumes "columns_inv d" "well_addressed d (e, CreateTask title descr)"
  shows "columns_inv (snd (createTask e d title descr))"
proof (cases "carried_out (createTask e d title descr)")
  case True
  then have "tasks d (uuid_task e) = None"
    using assms(2) by (simp add: property_Undefined_iff)
  then show ?thesis using assms(1) by (rule columns_inv_createTask [rotated])
next
  case False
  then show ?thesis using assms(1) createTask_rejected by simp
qed

lemma columns_inv_moveTask:
  assumes "columns_inv d" "well_addressed d (e, MoveTask ident src dst si di)"
  shows "columns_inv (snd (moveTask e d ident src dst si di))"
proof (cases "carried_out (moveTask e d ident src dst si di)")
  case False
  then show ?thesis using assms(1) moveTask_rejected by simp
next
  case True
  then have ok: "read_ok e" "write_ok e" and ex: "columns d src \<noteq> None" "columns d dst \<noteq> None"
    by (simp_all add: moveTask_carried_out)
  then obtain sc dc where sc: "columns d src = Some sc" and dc: "columns d dst = Some dc" by auto
  have s: "actualStart (length (taskIds sc)) si < length (taskIds sc)"
    and at: "taskIds sc ! actualStart (length (taskIds sc)) si = ident"
    using assms(2) True sc by (simp_all add: Let_def)
  have "ident \<in> set (taskIds sc)" using s at nth_mem by blast
  then have "tasks d ident \<noteq> None" by (rule columns_inv_tasks [OF assms(1) sc])
  then obtain t where t: "tasks d ident = Some t" by auto
  show ?thesis
  proof (cases "src = dst")
    case same: True
    then show ?thesis
      using ok t sc dc columns_inv_moved [OF assms(1) t sc dc s at, where di = di]
      by (simp add: moveTask_def Let_def)
  next
    case False
    then show ?thesis
      using ok t sc dc columns_inv_moved [OF assms(1) t sc dc s at, where di = di]
      by (simp add: moveTask_def Let_def)
  qed
qed

lemma columns_inv_handle:
  assumes "columns_inv d" "well_addressed d r"
  shows "columns_inv (handle d r)"
proof (cases r)
  case (Pair e q)
  show ?thesis
  proof (cases q)
    case (CreateTask title descr)
    then show ?thesis
      using assms Pair columns_inv_createTask_addressed [of d e title descr] by simp
  next
    case (UpdateTask ident title descr)
    then show ?thesis using assms Pair by (simp add: columns_inv_updateTask)
  next
    case (DeleteTask ident)
    then show ?thesis using assms Pair by (simp add: columns_inv_deleteTask)
  next
    case (MoveTask ident src dst si di)
    then show ?thesis using assms Pair columns_inv_moveTask [of d e ident src dst si di] by simp
  qed
qed

lemma columns_inv_run:
  "columns_inv d \<Longrightarrow> well_addressed_run d rs \<Longrightarrow> columns_inv (run d rs)"
  by (induction rs arbitrary: d) (simp_all add: columns_inv_handle)

section \<open>Column order and the set of columns never change\<close>

lemma columnOrder_handle: "columnOrder (handle d r) = columnOrder d"
proof (cases r)
  case (Pair e q)
  then show ?thesis
    by (cases q)
       (auto simp: createTask_def updateTask_def deleteTask_def moveTask_def Let_def addToHistory_def
          split: option.splits property.splits prod.splits)
qed

lemma columnOrder_run: "columnOrder (run d rs) = columnOrder d"
  by (induction rs arbitrary: d) (simp_all add: columnOrder_handle)

lemma dom_columns_handle: "dom (columns (handle d r)) = dom (columns d)"
proof (cases r)
  case (Pair e q)
  then show ?thesis
    by (cases q)
       (auto simp: createTask_def updateTask_def deleteTask_def moveTask_def Let_def addToHistory_def
          domIff split: option.splits if_splits property.splits prod.splits)
qed

lemma dom_columns_run: "dom (columns (run d rs)) = dom (columns d)"
  by (induction rs arbitrary: d) (simp_all add: dom_columns_handle)

lemma todo_first_reachable:
  "columnOrder (run (initialData now) rs) = [''todo'', ''inprogress'', ''done'']
   \<and> columns (run (initialData now) rs) ''todo'' \<noteq> None"
proof -
  have "''todo'' \<in> dom (columns (run (initialData now) rs))"
    unfolding dom_columns_run by (simp add: initialData_def)
  then show ?thesis by (auto simp: columnOrder_run) (simp add: initialData_def)
qed

section \<open>The history under a sequence of requests\<close>

lemma history_or_empty_addToHistory:
  "history_or_empty (addToHistory e d a) =
     take 5 (\<lparr> hist_id = uuid_hist e, action = a, timestamp = now_hist e \<rparr> # history_or_empty d)"
  by (simp add: addToHistory_def history_or_empty_def Let_def)

lemma history_or_empty_upd [simp]:
  "history_or_empty (d\<lparr>tasks := ts\<rparr>) = history_or_empty d"
  "history_or_empty (d\<lparr>columns := cs\<rparr>) = history_or_empty d"
  by (simp_all add: history_or_empty_def)

lemma history_handle:
  "\<exists>a. history_or_empty (handle d (e, q)) =
     (if logged d (e, q)
      then take 5 (\<lparr> hist_id = uuid_hist e, action = a, timestamp = now_hist e \<rparr> # history_or_empty d)
      else history_or_empty d)"
proof (cases q)
  case (CreateTask title descr)
  show ?thesis
  proof (cases "logged d (e, q)")
    case True
    then obtain todo where "columns d ''todo'' = Some todo" using CreateTask by auto
    then show ?thesis using True CreateTask
      by (auto simp: createTask_def Let_def history_or_empty_addToHistory)
  next
    case False
    then show ?thesis using CreateTask
      by (auto simp: createTask_def Let_def split: option.splits)
  qed
next
  case (UpdateTask ident title descr)
  then show ?thesis
    by (cases "property e (tasks d) ident")
       (auto simp: updateTask_def Let_def history_or_empty_addToHistory)
next
  case (DeleteTask ident)
  then show ?thesis
    by (cases "property e (tasks d) ident")
       (auto simp: deleteTask_def Let_def history_or_empty_addToHistory)
next
  case (MoveTask ident src dst si di)
  show ?thesis
  proof (cases "carried_out (moveTask e d ident src dst si di)")
    case False
    then have "snd (moveTask e d ident src dst si di) = d" by (rule moveTask_rejected)
    then have same: "history_or_empty (handle d (e, q)) = history_or_empty d"
      using MoveTask by simp
    have "\<not> logged d (e, q)"
      using False MoveTask by (auto simp: moveTask_carried_out)
    then show ?thesis
      unfolding same by (simp only: if_False simp_thms)
  next
    case True
    then have ok: "read_ok e" "write_ok e" "property e (tasks d) ident \<noteq> Undefined"
      and ex: "columns d src \<noteq> None" "columns d dst \<noteq> None"
      by (simp_all add: moveTask_carried_out)
    then obtain sc dc where sc: "columns d src = Some sc" and dc: "columns d dst = Some dc" by auto
    show ?thesis
      using ok sc dc MoveTask
      by (cases "property e (tasks d) ident"; cases "src = dst")
         (auto simp: moveTask_def Let_def history_or_empty_addToHistory)
  qed
qed

lemma take_append_take: "take n (xs @ take n ys) = take n (xs @ ys)"
  by (simp add: min_def)

lemma stamp_entry [simp]: "stamp \<lparr> hist_id = i, action = a, timestamp = t \<rparr> = (i, t)"
  by (simp add: stamp_def)

lemma history_run:
  assumes "length (history_or_empty d) \<le> 5"
  shows "\<exists>new. history_or_empty (run d rs) = take 5 (new @ history_or_empty d) \<and>
               map stamp new = rev (stamps_logged d rs)"
  using assms
proof (induction rs arbitrary: d)
  case Nil
  then show ?case by (intro exI [of _ "[]"]) simp
next
  case (Cons r rs)
  obtain e q where r: "r = (e, q)" by (cases r)
  from history_handle [of d e q] obtain a where
    step: "history_or_empty (handle d r) =
             (if logged d r
              then take 5 (\<lparr> hist_id = uuid_hist e, action = a, timestamp = now_hist e \<rparr> # history_or_empty d)
              else history_or_empty d)"
    using r by auto
  have "length (history_or_empty (handle d r)) \<le> 5"
    using step Cons.prems by simp
  from Cons.IH [OF this] obtain new where
    n: "history_or_empty (run (handle d r) rs) = take 5 (new @ history_or_empty (handle d r))"
    and st: "map stamp new = rev (stamps_logged (handle d r) rs)" by blast
  show ?case
  proof (cases "logged d r")
    case False
    then show ?thesis using n st step by auto
  next
    case True
    let ?h = "\<lparr> hist_id = uuid_hist e, action = a, timestamp = now_hist e \<rparr>"
    have "history_or_empty (run d (r # rs)) = take 5 (new @ take 5 (?h # history_or_empty d))"
      using n step True by simp
    also have "\<dots> = take 5 (new @ ?h # history_or_empty d)"
      by (rule take_append_take)
    also have "\<dots> = take 5 ((new @ [?h]) @ history_or_empty d)"
      by simp
    finally have eq: "history_or_empty (run d (r # rs)) = take 5 ((new @ [?h]) @ history_or_empty d)" .
    have "map stamp (new @ [?h]) = rev (stamps_logged d (r # rs))"
      using st True r by simp
    with eq show ?thesis by blast
  qed
qed

section \<open>More on \<open>splice_js\<close>: indices in range, order of the other elements\<close>

lemma actualStart_in_range: "i \<le> n \<Longrightarrow> actualStart n (int i) = i"
  by (simp add: actualStart_def)

lemma subseq_take_drop:
  assumes "m \<le> n"
  shows "subseq (take m xs @ drop n xs) xs"
proof -
  have "drop m xs = take (n - m) (drop m xs) @ drop n xs"
    using assms by (metis append_take_drop_id drop_drop le_add_diff_inverse2)
  then have "subseq (drop n xs) (drop m xs)"
    by (metis subseq_drop_many subseq_order.refl)
  then have "subseq (take m xs @ drop n xs) (take m xs @ drop m xs)"
    by (intro list_emb_append_mono subseq_order.refl)
  then show ?thesis by simp
qed

lemma subseq_splice_delete1: "subseq (splice_js xs i 1 []) xs"
  unfolding splice_delete1 by (rule subseq_take_drop) simp

lemma subseq_splice_insert1: "subseq xs (splice_js xs i 0 [x])"
proof -
  have "subseq (take (actualStart (length xs) i) xs @ drop (actualStart (length xs) i) xs)
          (take (actualStart (length xs) i) xs @ x # drop (actualStart (length xs) i) xs)"
    by (intro list_emb_append_mono list_emb_Cons subseq_order.refl)
  then show ?thesis unfolding splice_insert1 by simp
qed

lemma splice_delete1_in_range:
  "i < length xs \<Longrightarrow> splice_js xs (int i) 1 [] = remove_at i xs"
  by (simp add: splice_delete1 remove_at_def actualStart_in_range)

lemma splice_insert1_in_range:
  "i \<le> length xs \<Longrightarrow> splice_js xs (int i) 0 [x] = insert_at i x xs"
  by (simp add: splice_insert1 insert_at_def actualStart_in_range)

section \<open>The object-level update, evaluated\<close>

lemma below_ne:
  "(a::nat) < n \<Longrightarrow> a \<noteq> n" "a < n \<Longrightarrow> a \<noteq> Suc n" "a < n \<Longrightarrow> a \<noteq> Suc (Suc n)"
  "a < n \<Longrightarrow> a \<noteq> Suc (Suc (Suc n))" "a < n \<Longrightarrow> a \<noteq> Suc (Suc (Suc (Suc n)))"
  "a < n \<Longrightarrow> a \<noteq> Suc (Suc (Suc (Suc (Suc n))))"
  by simp_all

text \<open>
  With both columns present, the update allocates six objects when the columns differ
  (board, two columns, two arrays, dictionary) and five when they are the same (board,
  column, two arrays of which the first is dropped, dictionary), and writes to no other
  address.
\<close>

lemma optimistic_heap_cross:
  assumes inv: "\<forall>a \<in> dom (objs h). a < next_addr h"
    and cur: "objs h cur = Some (Board_obj ta ca oa ha)"
    and ca: "objs h ca = Some (Columns_obj m)"
    and sa: "m src = Some sa" "objs h sa = Some (Column_obj sid stitle sarr)" "objs h sarr = Some (Array_obj sxs)"
    and da: "m dst = Some da" "objs h da = Some (Column_obj did dtitle darr)" "objs h darr = Some (Array_obj dxs)"
    and ne: "src \<noteq> dst"
  shows "\<exists>h'. moveTask_optimistic_heap h cur taskId src dst si di = Inr (next_addr h, h')
      \<and> (\<forall>a. a < next_addr h \<longrightarrow> objs h' a = objs h a)
      \<and> objs h' (next_addr h) = Some (Board_obj ta (next_addr h + 5) oa ha)
      \<and> objs h' (next_addr h + 5) = Some (Columns_obj (m(src \<mapsto> next_addr h + 1, dst \<mapsto> next_addr h + 2)))
      \<and> objs h' (next_addr h + 1) = Some (Column_obj sid stitle (next_addr h + 3))
      \<and> objs h' (next_addr h + 2) = Some (Column_obj did dtitle (next_addr h + 4))
      \<and> objs h' (next_addr h + 3) = Some (Array_obj (splice_js sxs si 1 []))
      \<and> objs h' (next_addr h + 4) = Some (Array_obj (splice_js dxs di 0 [taskId]))"
proof -
  have lt: "cur < next_addr h" "ca < next_addr h" "sa < next_addr h" "sarr < next_addr h"
    "da < next_addr h" "darr < next_addr h"
    using inv cur ca sa da by (auto simp: dom_def)
  note n = lt [THEN below_ne(1)] lt [THEN below_ne(2)] lt [THEN below_ne(3)]
    lt [THEN below_ne(4)] lt [THEN below_ne(5)] lt [THEN below_ne(6)]
  show ?thesis
    using cur ca sa da ne n
    by (simp add: moveTask_optimistic_heap_def alloc_def spread_column_def copy_taskIds_def
          splice_taskIds_def Let_def numeral_eq_Suc)
qed

lemma optimistic_heap_same:
  assumes inv: "\<forall>a \<in> dom (objs h). a < next_addr h"
    and cur: "objs h cur = Some (Board_obj ta ca oa ha)"
    and ca: "objs h ca = Some (Columns_obj m)"
    and sa: "m src = Some sa" "objs h sa = Some (Column_obj sid stitle sarr)" "objs h sarr = Some (Array_obj sxs)"
  shows "\<exists>h'. moveTask_optimistic_heap h cur taskId src src si di = Inr (next_addr h, h')
      \<and> (\<forall>a. a < next_addr h \<longrightarrow> objs h' a = objs h a)
      \<and> objs h' (next_addr h) = Some (Board_obj ta (next_addr h + 4) oa ha)
      \<and> objs h' (next_addr h + 4) = Some (Columns_obj (m(src \<mapsto> next_addr h + 1)))
      \<and> objs h' (next_addr h + 1) = Some (Column_obj sid stitle (next_addr h + 3))
      \<and> objs h' (next_addr h + 3) = Some (Array_obj (splice_js (splice_js sxs si 1 []) di 0 [taskId]))"
proof -
  have lt: "cur < next_addr h" "ca < next_addr h" "sa < next_addr h" "sarr < next_addr h"
    using inv cur ca sa by (auto simp: dom_def)
  note n = lt [THEN below_ne(1)] lt [THEN below_ne(2)] lt [THEN below_ne(3)]
    lt [THEN below_ne(4)] lt [THEN below_ne(5)] lt [THEN below_ne(6)]
  show ?thesis
    using cur ca sa n
    by (simp add: moveTask_optimistic_heap_def alloc_def spread_column_def copy_taskIds_def
          splice_taskIds_def Let_def numeral_eq_Suc)
qed

section \<open>The update on objects computes the update on values\<close>

lemma wf_heap_below: "wf_heap h \<Longrightarrow> objs h a = Some ob \<Longrightarrow> r \<in> refs ob \<Longrightarrow> r < next_addr h"
  unfolding wf_heap_def by blast

lemma wf_heap_alloc: "wf_heap h \<Longrightarrow> \<forall>a \<in> dom (objs h). a < next_addr h"
  unfolding wf_heap_def by blast

lemma read_boardE:
  assumes "read_board h cur = Some b"
  obtains ta ca oa ha ts m order where
    "objs h cur = Some (Board_obj ta ca oa ha)" "objs h ta = Some (Tasks_obj ts)"
    "objs h ca = Some (Columns_obj m)" "objs h oa = Some (Array_obj order)"
    "tasks b = ts" "columnOrder b = order"
    "columns b = (\<lambda>k. case m k of None \<Rightarrow> None | Some c \<Rightarrow> read_column h c)"
    "history b = (case ha of None \<Rightarrow> None
                  | Some hh \<Rightarrow> (case objs h hh of Some (History_obj es) \<Rightarrow> Some es | _ \<Rightarrow> None))"
  using assms
  by (auto simp: read_board_def split: option.splits obj.splits)

lemma read_columnE:
  assumes "read_column h a = Some col"
  obtains arr where "objs h a = Some (Column_obj (col_id col) (col_title col) arr)"
    "objs h arr = Some (Array_obj (taskIds col))"
  using assms
  by (auto simp: read_column_def split: option.splits obj.splits)

lemma read_column_frame:
  assumes wf: "wf_heap h" and fr: "\<forall>a. a < next_addr h \<longrightarrow> objs h' a = objs h a"
    and c: "c < next_addr h"
  shows "read_column h' c = read_column h c"
proof (cases "objs h c")
  case None
  then show ?thesis using fr c by (simp add: read_column_def)
next
  case (Some ob)
  show ?thesis
  proof (cases ob)
    case (Column_obj i t arr)
    then have "arr < next_addr h"
      using wf_heap_below [OF wf Some, of arr] by simp
    then show ?thesis using fr c Some Column_obj by (simp add: read_column_def)
  qed (use fr c Some in \<open>simp_all add: read_column_def\<close>)
qed


lemma read_board_new:
  assumes wf: "wf_heap h" and fr: "\<forall>a. a < next_addr h \<longrightarrow> objs h' a = objs h a"
    and cur: "objs h cur = Some (Board_obj ta ca oa ha)" and ta: "objs h ta = Some (Tasks_obj ts)"
    and oa: "objs h oa = Some (Array_obj order)"
    and new: "objs h' new = Some (Board_obj ta ca' oa ha)" and ca': "objs h' ca' = Some (Columns_obj m')"
  shows "read_board h' new =
           Some \<lparr> tasks = ts,
                  columns = (\<lambda>k. case m' k of None \<Rightarrow> None | Some c \<Rightarrow> read_column h' c),
                  columnOrder = order,
                  history = (case ha of None \<Rightarrow> None
                             | Some hh \<Rightarrow> (case objs h hh of Some (History_obj es) \<Rightarrow> Some es | _ \<Rightarrow> None)) \<rparr>"
proof -
  have "ta < next_addr h" "oa < next_addr h"
    using wf_heap_below [OF wf cur] by simp_all
  then have t: "objs h' ta = Some (Tasks_obj ts)" and o: "objs h' oa = Some (Array_obj order)"
    using fr ta oa by simp_all
  have hh: "objs h' hh = objs h hh" if "ha = Some hh" for hh
    using wf_heap_below [OF wf cur, of hh] fr that by simp
  show ?thesis
    using new ca' t o hh by (cases ha) (simp_all add: read_board_def)
qed

text \<open>
  On a well formed heap, for a board that has both columns, the update on objects
  succeeds and the board that its result stands for is the result of the update on
  values.
\<close>

lemma heap_refines_value:
  assumes wf: "wf_heap h" and rb: "read_board h cur = Some b"
    and sc: "columns b src = Some scol" and dc: "columns b dst = Some dcol"
  shows "\<exists>new h' b'. moveTask_optimistic_heap h cur taskId src dst si di = Inr (new, h')
           \<and> moveTask_optimistic b taskId src dst si di = Inr b'
           \<and> read_board h' new = Some b'"
proof -
  from rb obtain ta ca oa ha ts m order where
    cur: "objs h cur = Some (Board_obj ta ca oa ha)" and ta: "objs h ta = Some (Tasks_obj ts)"
    and ca: "objs h ca = Some (Columns_obj m)" and oa: "objs h oa = Some (Array_obj order)"
    and b: "tasks b = ts" "columnOrder b = order"
      "columns b = (\<lambda>k. case m k of None \<Rightarrow> None | Some c \<Rightarrow> read_column h c)"
      "history b = (case ha of None \<Rightarrow> None
                    | Some hh \<Rightarrow> (case objs h hh of Some (History_obj es) \<Rightarrow> Some es | _ \<Rightarrow> None))"
    by (rule read_boardE)
  from sc b(3) obtain sa where sa: "m src = Some sa" and rs: "read_column h sa = Some scol"
    by (auto split: option.splits)
  from dc b(3) obtain da where da: "m dst = Some da" and rd: "read_column h da = Some dcol"
    by (auto split: option.splits)
  from rs obtain sarr where so: "objs h sa = Some (Column_obj (col_id scol) (col_title scol) sarr)"
    and sx: "objs h sarr = Some (Array_obj (taskIds scol))" by (rule read_columnE)
  from rd obtain darr where "do": "objs h da = Some (Column_obj (col_id dcol) (col_title dcol) darr)"
    and dx: "objs h darr = Some (Array_obj (taskIds dcol))" by (rule read_columnE)
  note inv = wf_heap_alloc [OF wf]
  let ?n = "next_addr h"
  have other: "(case m k of None \<Rightarrow> None | Some c \<Rightarrow> read_column h' c) = columns b k"
    if "\<forall>a. a < ?n \<longrightarrow> objs h' a = objs h a" for h' k
  proof (cases "m k")
    case None
    then show ?thesis by (simp add: b(3))
  next
    case (Some c)
    then have "c \<in> ran m" by (auto simp: ran_def)
    then have "c < ?n" using wf_heap_below [OF wf ca, of c] by simp
    then show ?thesis using read_column_frame [OF wf that] Some by (simp add: b(3))
  qed
  show ?thesis
  proof (cases "src = dst")
    case True
    then have same: "dcol = scol" using sc dc by simp
    from optimistic_heap_same [OF inv cur ca sa so sx, of taskId si di]
    obtain h' where r: "moveTask_optimistic_heap h cur taskId src src si di = Inr (?n, h')"
      and fr: "\<forall>a. a < ?n \<longrightarrow> objs h' a = objs h a"
      and bo: "objs h' ?n = Some (Board_obj ta (?n + 4) oa ha)"
      and co: "objs h' (?n + 4) = Some (Columns_obj (m(src \<mapsto> ?n + 1)))"
      and s1: "objs h' (?n + 1) = Some (Column_obj (col_id scol) (col_title scol) (?n + 3))"
      and a1: "objs h' (?n + 3) = Some (Array_obj (splice_js (splice_js (taskIds scol) si 1 []) di 0 [taskId]))"
      by blast
    let ?b' = "b\<lparr>columns := (columns b)(src \<mapsto>
                 scol\<lparr>taskIds := splice_js (splice_js (taskIds scol) si 1 []) di 0 [taskId]\<rparr>)\<rparr>"
    have v: "moveTask_optimistic b taskId src dst si di = Inr ?b'"
      using sc True by (simp add: moveTask_optimistic_def Let_def)
    have rc: "read_column h' (?n + 1) =
                Some (scol\<lparr>taskIds := splice_js (splice_js (taskIds scol) si 1 []) di 0 [taskId]\<rparr>)"
      using s1 a1 by (simp add: read_column_def)
    have cols: "(\<lambda>k. case (m(src \<mapsto> ?n + 1)) k of None \<Rightarrow> None | Some c \<Rightarrow> read_column h' c)
                  = columns ?b'"
    proof
      fix k
      show "(case (m(src \<mapsto> ?n + 1)) k of None \<Rightarrow> None | Some c \<Rightarrow> read_column h' c) = columns ?b' k"
        using rc other [OF fr, of k] by (cases "k = src") simp_all
    qed
    have "read_board h' ?n = Some ?b'"
      unfolding read_board_new [OF wf fr cur ta oa bo co] cols
      using b by simp
    then show ?thesis using r v True by blast
  next
    case False
    from optimistic_heap_cross [OF inv cur ca sa so sx da "do" dx False, of taskId si di]
    obtain h' where r: "moveTask_optimistic_heap h cur taskId src dst si di = Inr (?n, h')"
      and fr: "\<forall>a. a < ?n \<longrightarrow> objs h' a = objs h a"
      and bo: "objs h' ?n = Some (Board_obj ta (?n + 5) oa ha)"
      and co: "objs h' (?n + 5) = Some (Columns_obj (m(src \<mapsto> ?n + 1, dst \<mapsto> ?n + 2)))"
      and s1: "objs h' (?n + 1) = Some (Column_obj (col_id scol) (col_title scol) (?n + 3))"
      and d1: "objs h' (?n + 2) = Some (Column_obj (col_id dcol) (col_title dcol) (?n + 4))"
      and a1: "objs h' (?n + 3) = Some (Array_obj (splice_js (taskIds scol) si 1 []))"
      and a2: "objs h' (?n + 4) = Some (Array_obj (splice_js (taskIds dcol) di 0 [taskId]))"
      by blast
    let ?b' = "b\<lparr>columns := (columns b)(src \<mapsto> scol\<lparr>taskIds := splice_js (taskIds scol) si 1 []\<rparr>,
                                            dst \<mapsto> dcol\<lparr>taskIds := splice_js (taskIds dcol) di 0 [taskId]\<rparr>)\<rparr>"
    have v: "moveTask_optimistic b taskId src dst si di = Inr ?b'"
      using sc dc False by (simp add: moveTask_optimistic_def Let_def)
    have rc: "read_column h' (?n + 1) = Some (scol\<lparr>taskIds := splice_js (taskIds scol) si 1 []\<rparr>)"
      "read_column h' (?n + 2) = Some (dcol\<lparr>taskIds := splice_js (taskIds dcol) di 0 [taskId]\<rparr>)"
      using s1 d1 a1 a2 by (simp_all add: read_column_def)
    have cols: "(\<lambda>k. case (m(src \<mapsto> ?n + 1, dst \<mapsto> ?n + 2)) k of None \<Rightarrow> None | Some c \<Rightarrow> read_column h' c)
                  = columns ?b'"
    proof
      fix k
      show "(case (m(src \<mapsto> ?n + 1, dst \<mapsto> ?n + 2)) k of None \<Rightarrow> None | Some c \<Rightarrow> read_column h' c)
              = columns ?b' k"
        using rc other [OF fr, of k] False by (cases "k = src"; cases "k = dst") simp_all
    qed
    have "read_board h' ?n = Some ?b'"
      unfolding read_board_new [OF wf fr cur ta oa bo co] cols
      using b by simp
    then show ?thesis using r v by blast
  qed
qed

text \<open>
  The board of the tests as objects is well formed and stands for the board of the tests,
  so the lemma applies to it.
\<close>

lemma heap0_dom: "dom (objs heap0) = {0, 1, 2, 3, 4, 5, 6, 7, 8, 9, 10}"
  by (simp add: heap0_def insert_commute)

lemma heap0_objs:
  "objs heap0 0 = Some (Board_obj 1 2 3 (Some 4))"
  "objs heap0 1 = Some (Tasks_obj (tasks mockBoardData))"
  "objs heap0 2 = Some (Columns_obj [''column-1'' \<mapsto> 5, ''column-2'' \<mapsto> 7, ''column-3'' \<mapsto> 9])"
  "objs heap0 3 = Some (Array_obj [''column-1'', ''column-2'', ''column-3''])"
  "objs heap0 4 = Some (History_obj [])"
  "objs heap0 5 = Some (Column_obj ''column-1'' ''To Do'' 6)"
  "objs heap0 6 = Some (Array_obj [''task-1''])"
  "objs heap0 7 = Some (Column_obj ''column-2'' ''In Progress'' 8)"
  "objs heap0 8 = Some (Array_obj [''task-2''])"
  "objs heap0 9 = Some (Column_obj ''column-3'' ''Done'' 10)"
  "objs heap0 10 = Some (Array_obj [])"
  by (simp_all add: heap0_def)

lemma ran3: "ran [''column-1'' \<mapsto> 5, ''column-2'' \<mapsto> 7, ''column-3'' \<mapsto> (9::nat)] = {5, 7, 9}"
  by (simp add: ran_map_upd insert_commute)


lemma heap0_wf: "wf_heap heap0"
proof -
  have "refs ob \<subseteq> dom (objs heap0)" if "objs heap0 a = Some ob" for a ob
  proof -
    from that have "a \<in> dom (objs heap0)" by blast
    then consider "a = 0" | "a = 1" | "a = 2" | "a = 3" | "a = 4" | "a = 5" | "a = 6" | "a = 7"
      | "a = 8" | "a = 9" | "a = 10"
      unfolding heap0_dom by blast
    then show ?thesis
    proof cases
      case 1 with that have "ob = Board_obj 1 2 3 (Some 4)" by (simp add: heap0_objs)
      then show ?thesis unfolding heap0_dom by simp
    next
      case 2 with that heap0_objs(2) have "ob = Tasks_obj (tasks mockBoardData)" by simp
      then show ?thesis by simp
    next
      case 3 with that have "ob = Columns_obj [''column-1'' \<mapsto> 5, ''column-2'' \<mapsto> 7, ''column-3'' \<mapsto> 9]"
        by (simp add: heap0_objs)
      then show ?thesis unfolding heap0_dom by (simp add: ran3)
    next
      case 4 with that have "ob = Array_obj [''column-1'', ''column-2'', ''column-3'']" by (simp add: heap0_objs)
      then show ?thesis by simp
    next
      case 5 with that have "ob = History_obj []" by (simp add: heap0_objs)
      then show ?thesis by simp
    next
      case 6 with that have "ob = Column_obj ''column-1'' ''To Do'' 6" by (simp add: heap0_objs)
      then show ?thesis unfolding heap0_dom by simp
    next
      case 7 with that have "ob = Array_obj [''task-1'']" by (simp add: heap0_objs)
      then show ?thesis by simp
    next
      case 8 with that have "ob = Column_obj ''column-2'' ''In Progress'' 8" by (simp add: heap0_objs)
      then show ?thesis unfolding heap0_dom by simp
    next
      case 9 with that have "ob = Array_obj [''task-2'']" by (simp add: heap0_objs)
      then show ?thesis by simp
    next
      case 10 with that have "ob = Column_obj ''column-3'' ''Done'' 10" by (simp add: heap0_objs)
      then show ?thesis unfolding heap0_dom by simp
    next
      case 11 with that have "ob = Array_obj []" by (simp add: heap0_objs)
      then show ?thesis by simp
    qed
  qed
  moreover have "\<forall>a \<in> dom (objs heap0). a < next_addr heap0"
    unfolding heap0_dom by (simp add: heap0_def)
  ultimately show ?thesis unfolding wf_heap_def by blast
qed


lemma heap0_reads: "read_board heap0 0 = Some mockBoardData"
proof -
  have rc: "read_column heap0 5 = Some \<lparr> col_id = ''column-1'', col_title = ''To Do'', taskIds = [''task-1''] \<rparr>"
    "read_column heap0 7 = Some \<lparr> col_id = ''column-2'', col_title = ''In Progress'', taskIds = [''task-2''] \<rparr>"
    "read_column heap0 9 = Some \<lparr> col_id = ''column-3'', col_title = ''Done'', taskIds = [] \<rparr>"
    by (simp_all add: read_column_def heap0_objs)
  have cols: "(\<lambda>k. case [''column-1'' \<mapsto> 5, ''column-2'' \<mapsto> 7, ''column-3'' \<mapsto> (9::nat)] k of
               None \<Rightarrow> None | Some c \<Rightarrow> read_column heap0 c) = columns mockBoardData"
    by (rule ext) (simp add: rc mockBoardData_def)
  have "read_board heap0 0 =
          Some \<lparr> tasks = tasks mockBoardData,
                 columns = (\<lambda>k. case [''column-1'' \<mapsto> 5, ''column-2'' \<mapsto> 7, ''column-3'' \<mapsto> (9::nat)] k of
                              None \<Rightarrow> None | Some c \<Rightarrow> read_column heap0 c),
                 columnOrder = [''column-1'', ''column-2'', ''column-3''],
                 history = Some [] \<rparr>"
    using heap0_objs(1-5) by (simp add: read_board_def del: fun_upd_apply)
  also have "\<dots> = Some mockBoardData"
    unfolding cols by (simp add: mockBoardData_def)
  finally show ?thesis .
qed

lemma heap_refines_value_mockBoardData:
  "\<exists>new h' b'. moveTask_optimistic_heap heap0 0 ''task-1'' ''column-1'' ''column-2'' 0 0 = Inr (new, h')
       \<and> moveTask_optimistic mockBoardData ''task-1'' ''column-1'' ''column-2'' 0 0 = Inr b'
       \<and> read_board h' new = Some b'"
  by (rule heap_refines_value [OF heap0_wf heap0_reads]) (simp_all add: mockBoardData_def)


section \<open>Requests that name an inherited property\<close>

text \<open>
  On the seeded document, in a process as the runtime starts it: a move of \<^verbatim>\<open>constructor\<close>
  is carried out and logged with the title \<^verbatim>\<open>undefined\<close>; a move to the column
  \<^verbatim>\<open>toString\<close> throws; an update of \<^verbatim>\<open>__proto__\<close> leaves the tasks as they are and is
  logged; a delete of \<^verbatim>\<open>valueOf\<close> is carried out and logged.
\<close>

lemma moveTask_constructor:
  "moveTask (env_ok ''u1'' ''h1'' ''T1'') (initialData ''T0'') ''constructor'' ''todo'' ''done'' 5 0
     = (Inr True,
        (initialData ''T0'')
          \<lparr> columns := (columns (initialData ''T0''))(''done'' \<mapsto>
               \<lparr> col_id = ''done'', col_title = ''Done'', taskIds = [''constructor''] \<rparr>),
            history := Some [\<lparr> hist_id = ''h1'', action = ''Moved \"undefined\" from To Do to Done'',
                               timestamp = ''T1'' \<rparr>] \<rparr>)"
  by (simp add: initialData_def env_ok_def moveTask_def Let_def addToHistory_def splice_js_def
        actualStart_def title_text_def title_of_def template_text_def property_def
        runtime_prototype_def prototype_names_def fun_upd_twist)

lemma moveTask_toString_column:
  "moveTask (env_ok ''u1'' ''h1'' ''T1'') (initialData ''T0'') ''task-1'' ''todo'' ''toString'' 0 0
     = (Inl TypeError, initialData ''T0'')"
  by (simp add: initialData_def env_ok_def moveTask_def property_def runtime_prototype_def
        prototype_names_def)

lemma updateTask_proto:
  "updateTask (env_ok ''u1'' ''h1'' ''T1'') (initialData ''T0'') ''__proto__'' (Some ''x'') None
     = (Inl Not_a_task,
        (initialData ''T0'')
          \<lparr> history := Some [\<lparr> hist_id = ''h1'',
                               action = ''Updated task: \"undefined\" '' @ arrow @ '' \"x\"'',
                               timestamp = ''T1'' \<rparr>] \<rparr>)"
  by (simp add: initialData_def env_ok_def updateTask_def Let_def addToHistory_def truthy_def
        title_of_def template_text_def property_def runtime_prototype_def prototype_names_def)

lemma deleteTask_valueOf:
  "deleteTask (env_ok ''u1'' ''h1'' ''T1'') (initialData ''T0'') ''valueOf''
     = (Inr (),
        (initialData ''T0'')
          \<lparr> history := Some [\<lparr> hist_id = ''h1'', action = ''Deleted task: \"undefined\"'',
                               timestamp = ''T1'' \<rparr>] \<rparr>)"
  by (simp add: initialData_def env_ok_def deleteTask_def Let_def addToHistory_def
        title_text_def title_of_def template_text_def property_def runtime_prototype_def
        prototype_names_def fun_eq_iff)

section \<open>Membership (C1)\<close>

text \<open>
  C1, as the code has it: in every document reached from the seeded one by well addressed
  requests, two different columns have no task id in common. The move handler takes
  out whatever is at \<open>sourceIndex\<close> of the source column without comparing it with the
  task id, so the property needs the request to name the place where the task is. All
  else is free: the ids of updates and deletes and the column ids and the destination
  index of moves are any values, names of \<^verbatim>\<open>Object.prototype\<close> included, and so is what
  the process has inherited from earlier requests.
\<close>

theorem membership_reachable:
  assumes "well_addressed_run (initialData now) rs"
    and "columns (run (initialData now) rs) c1 = Some col1"
    and "columns (run (initialData now) rs) c2 = Some col2"
    and "c1 \<noteq> c2"
  shows "set (taskIds col1) \<inter> set (taskIds col2) = {}"
  using columns_inv_unique [OF columns_inv_run [OF columns_inv_initialData assms(1)] assms(2,3)] assms(4)
  by blast

text \<open>
  Witness for C1: a task is created and moved from \<^verbatim>\<open>todo\<close> (index 1) to
  \<^verbatim>\<open>done\<close>; the two columns then hold different tasks.
\<close>

theorem membership_reachable_witness:
  "well_addressed_run (initialData ''T0'')
     [(env_ok ''u1'' ''h1'' ''T1'', CreateTask (Some ''Buy milk'') None),
      (env_ok ''u2'' ''h2'' ''T2'', MoveTask ''u1'' ''todo'' ''done'' 1 0)]
   \<and> map_option taskIds (columns (run (initialData ''T0'')
     [(env_ok ''u1'' ''h1'' ''T1'', CreateTask (Some ''Buy milk'') None),
      (env_ok ''u2'' ''h2'' ''T2'', MoveTask ''u1'' ''todo'' ''done'' 1 0)]) ''todo'') = Some [''task-1'']
   \<and> map_option taskIds (columns (run (initialData ''T0'')
     [(env_ok ''u1'' ''h1'' ''T1'', CreateTask (Some ''Buy milk'') None),
      (env_ok ''u2'' ''h2'' ''T2'', MoveTask ''u1'' ''todo'' ''done'' 1 0)]) ''done'') = Some [''u1'']
   \<and> set [''task-1''] \<inter> set [''u1''] = {}"
proof -
  let ?rs = "[(env_ok ''u1'' ''h1'' ''T1'', CreateTask (Some ''Buy milk'') None),
      (env_ok ''u2'' ''h2'' ''T2'', MoveTask ''u1'' ''todo'' ''done'' 1 0)]"
  have run: "run (initialData ''T0'') ?rs =
     \<lparr> tasks = [''task-1'' \<mapsto>
          \<lparr> task_id = ''task-1'',
            task_title = ''Welcome to your Kanban Board!'',
            description = Some ''Drag me to different columns or edit me by clicking!'',
            createdAt = ''T0'' \<rparr>, ''u1'' \<mapsto> \<lparr> task_id = ''u1'', task_title = ''Buy milk'', description = Some [], createdAt = ''T1'' \<rparr>],
       columns = [''todo'' \<mapsto> \<lparr> col_id = ''todo'', col_title = ''To Do'', taskIds = [''task-1''] \<rparr>,
                  ''inprogress'' \<mapsto> \<lparr> col_id = ''inprogress'', col_title = ''In Progress'', taskIds = [] \<rparr>,
                  ''done'' \<mapsto> \<lparr> col_id = ''done'', col_title = ''Done'', taskIds = [''u1''] \<rparr>],
       columnOrder = [''todo'', ''inprogress'', ''done''],
       history = Some [\<lparr> hist_id = ''h2'', action = ''Moved \"Buy milk\" from To Do to Done'', timestamp = ''T2'' \<rparr>,
                       \<lparr> hist_id = ''h1'', action = ''Created task: \"Buy milk\"'', timestamp = ''T1'' \<rparr>] \<rparr>"
    by (simp add: initialData_def env_ok_def createTask_def moveTask_def Let_def addToHistory_def
          splice_js_def actualStart_def truthy_def title_text_def fun_upd_twist)
  have wa: "well_addressed_run (initialData ''T0'') ?rs"
    by (simp add: initialData_def env_ok_def createTask_def moveTask_def carried_out_def Let_def
          addToHistory_def splice_js_def actualStart_def truthy_def title_text_def
          property_def runtime_prototype_def prototype_names_def)
  have td: "columns (run (initialData ''T0'') ?rs) ''todo'' = Some \<lparr> col_id = ''todo'', col_title = ''To Do'', taskIds = [''task-1''] \<rparr>"
    and dn: "columns (run (initialData ''T0'') ?rs) ''done'' = Some \<lparr> col_id = ''done'', col_title = ''Done'', taskIds = [''u1''] \<rparr>"
    unfolding run by simp_all
  from membership_reachable [OF wa td dn] wa td dn show ?thesis by simp
qed

text \<open>
  Counterexample to C1 as stated: on the seeded document, moving \<^verbatim>\<open>task-1\<close> with
  source \<^verbatim>\<open>inprogress\<close>, index 0 (out of range: the column is empty) to \<^verbatim>\<open>done\<close>
  succeeds, removes nothing and inserts the id, which is then in \<^verbatim>\<open>todo\<close> and in
  \<^verbatim>\<open>done\<close>.
\<close>

theorem membership_counterexample:
  "map_option taskIds (columns (run (initialData ''T0'')
       [(env_ok ''u1'' ''h1'' ''T1'', MoveTask ''task-1'' ''inprogress'' ''done'' 0 0)]) ''todo'') = Some [''task-1'']
   \<and> map_option taskIds (columns (run (initialData ''T0'')
       [(env_ok ''u1'' ''h1'' ''T1'', MoveTask ''task-1'' ''inprogress'' ''done'' 0 0)]) ''done'') = Some [''task-1'']"
  by (simp add: initialData_def env_ok_def moveTask_def Let_def addToHistory_def splice_js_def
        actualStart_def title_text_def)

section \<open>Validation of the title (C2)\<close>

text \<open>
  C2, as the code has it: a create request whose title is missing or the empty string is
  answered with status 400 and the document stays as it was. The handler tests
  \<^verbatim>\<open>!title\<close> and does not trim: any other title, one of white space only included, is
  accepted when the file can be read and written and has the column \<^verbatim>\<open>todo\<close>. The
  answer is then the new task, with the title as it was given, and the written document
  is the old one with that task under its id in \<open>tasks\<close>, the id at the end of
  \<^verbatim>\<open>todo\<close>, and the entry \<^verbatim>\<open>Created task: "<title>"\<close> in front of the history.
\<close>

theorem createTask_empty_title_rejected:
  "(title = None \<or> title = Some [] \<longrightarrow>
      createTask e d title descr = (Inl (HttpError 400 ''Task title is required''), d))
   \<and> (\<forall>t todo. title = Some t \<and> t \<noteq> [] \<and> read_ok e \<and> write_ok e \<and> columns d ''todo'' = Some todo \<longrightarrow>
         createTask e d title descr =
           (Inr \<lparr> task_id = uuid_task e, task_title = t,
                   description = Some (case descr of None \<Rightarrow> [] | Some s \<Rightarrow> s),
                   createdAt = now_task e \<rparr>,
            d\<lparr> tasks := (tasks d)(uuid_task e \<mapsto>
                   \<lparr> task_id = uuid_task e, task_title = t,
                     description = Some (case descr of None \<Rightarrow> [] | Some s \<Rightarrow> s),
                     createdAt = now_task e \<rparr>),
               columns := (columns d)(''todo'' \<mapsto> todo\<lparr>taskIds := taskIds todo @ [uuid_task e]\<rparr>),
               history := Some (take 5
                   (\<lparr> hist_id = uuid_hist e, action = ''Created task: \"'' @ t @ ''\"'',
                      timestamp = now_hist e \<rparr> # history_or_empty d)) \<rparr>))"
proof (intro conjI allI impI)
  assume "title = None \<or> title = Some []"
  then show "createTask e d title descr = (Inl (HttpError 400 ''Task title is required''), d)"
    by (auto simp: createTask_def truthy_def)
next
  fix t todo
  assume a: "title = Some t \<and> t \<noteq> [] \<and> read_ok e \<and> write_ok e \<and> columns d ''todo'' = Some todo"
  have descr: "(if truthy descr then the descr else []) = (case descr of None \<Rightarrow> [] | Some s \<Rightarrow> s)"
    by (cases descr) (auto simp: truthy_def)
  show "createTask e d title descr =
           (Inr \<lparr> task_id = uuid_task e, task_title = t,
                   description = Some (case descr of None \<Rightarrow> [] | Some s \<Rightarrow> s),
                   createdAt = now_task e \<rparr>,
            d\<lparr> tasks := (tasks d)(uuid_task e \<mapsto>
                   \<lparr> task_id = uuid_task e, task_title = t,
                     description = Some (case descr of None \<Rightarrow> [] | Some s \<Rightarrow> s),
                     createdAt = now_task e \<rparr>),
               columns := (columns d)(''todo'' \<mapsto> todo\<lparr>taskIds := taskIds todo @ [uuid_task e]\<rparr>),
               history := Some (take 5
                   (\<lparr> hist_id = uuid_hist e, action = ''Created task: \"'' @ t @ ''\"'',
                      timestamp = now_hist e \<rparr> # history_or_empty d)) \<rparr>)"
    using a unfolding createTask_def descr
    by (simp add: truthy_def Let_def addToHistory_def history_or_empty_def)
qed

text \<open>
  Witness for C2: on the seeded document, the empty title is rejected and the title
  \<^verbatim>\<open>Buy milk\<close> is stored.
\<close>

theorem createTask_empty_title_rejected_witness:
  "createTask (env_ok ''u1'' ''h1'' ''T1'') (initialData ''T0'') (Some []) None
     = (Inl (HttpError 400 ''Task title is required''), initialData ''T0'')
   \<and> createTask (env_ok ''u1'' ''h1'' ''T1'') (initialData ''T0'') (Some ''Buy milk'') None
     = (Inr \<lparr> task_id = ''u1'', task_title = ''Buy milk'', description = Some [], createdAt = ''T1'' \<rparr>,
        (initialData ''T0'')
          \<lparr> tasks := (tasks (initialData ''T0''))(''u1'' \<mapsto>
               \<lparr> task_id = ''u1'', task_title = ''Buy milk'', description = Some [], createdAt = ''T1'' \<rparr>),
            columns := (columns (initialData ''T0''))(''todo'' \<mapsto>
               \<lparr> col_id = ''todo'', col_title = ''To Do'', taskIds = [''task-1'', ''u1''] \<rparr>),
            history := Some [\<lparr> hist_id = ''h1'', action = ''Created task: \"Buy milk\"'', timestamp = ''T1'' \<rparr>] \<rparr>)"
proof -
  have todo: "columns (initialData ''T0'') ''todo''
                = Some \<lparr> col_id = ''todo'', col_title = ''To Do'', taskIds = [''task-1''] \<rparr>"
    and h: "history_or_empty (initialData ''T0'') = []"
    by (simp_all add: initialData_def history_or_empty_def)
  from createTask_empty_title_rejected [of "Some []" "env_ok ''u1'' ''h1'' ''T1''" "initialData ''T0''" None]
  have a: "createTask (env_ok ''u1'' ''h1'' ''T1'') (initialData ''T0'') (Some []) None
     = (Inl (HttpError 400 ''Task title is required''), initialData ''T0'')"
    by simp
  from createTask_empty_title_rejected [of "Some ''Buy milk''" "env_ok ''u1'' ''h1'' ''T1''" "initialData ''T0''" None]
    todo h
  have b: "createTask (env_ok ''u1'' ''h1'' ''T1'') (initialData ''T0'') (Some ''Buy milk'') None
     = (Inr \<lparr> task_id = ''u1'', task_title = ''Buy milk'', description = Some [], createdAt = ''T1'' \<rparr>,
        (initialData ''T0'')
          \<lparr> tasks := (tasks (initialData ''T0''))(''u1'' \<mapsto>
               \<lparr> task_id = ''u1'', task_title = ''Buy milk'', description = Some [], createdAt = ''T1'' \<rparr>),
            columns := (columns (initialData ''T0''))(''todo'' \<mapsto>
               \<lparr> col_id = ''todo'', col_title = ''To Do'', taskIds = [''task-1'', ''u1''] \<rparr>),
            history := Some [\<lparr> hist_id = ''h1'', action = ''Created task: \"Buy milk\"'', timestamp = ''T1'' \<rparr>] \<rparr>)"
    by (simp add: env_ok_def)
  from a b show ?thesis by simp
qed

text \<open>
  Counterexample to C2 as stated: the title of three spaces is truthy, the task is
  created, and both \<open>tasks\<close> and \<open>history\<close> change.
\<close>

theorem createTask_blank_title_counterexample:
  "createTask (env_ok ''u1'' ''h1'' ''T1'') (initialData ''T0'') (Some ''   '') None =
     (Inr \<lparr> task_id = ''u1'', task_title = ''   '', description = Some [], createdAt = ''T1'' \<rparr>,
      (initialData ''T0'')
        \<lparr> tasks := (tasks (initialData ''T0''))(''u1'' \<mapsto>
             \<lparr> task_id = ''u1'', task_title = ''   '', description = Some [], createdAt = ''T1'' \<rparr>),
          columns := (columns (initialData ''T0''))(''todo'' \<mapsto>
             \<lparr> col_id = ''todo'', col_title = ''To Do'', taskIds = [''task-1'', ''u1''] \<rparr>),
          history := Some [\<lparr> hist_id = ''h1'', action = ''Created task: \"   \"'', timestamp = ''T1'' \<rparr>] \<rparr>)
   \<and> tasks (snd (createTask (env_ok ''u1'' ''h1'' ''T1'') (initialData ''T0'') (Some ''   '') None)) ''u1''
       \<noteq> tasks (initialData ''T0'') ''u1''
   \<and> history (snd (createTask (env_ok ''u1'' ''h1'' ''T1'') (initialData ''T0'') (Some ''   '') None))
       \<noteq> history (initialData ''T0'')"
  by (simp add: initialData_def env_ok_def createTask_def Let_def addToHistory_def truthy_def)

section \<open>Where a new task goes (C3)\<close>

text \<open>
  C3, as the code has it: for a document with a column \<^verbatim>\<open>todo\<close> and a non-empty title,
  createTask succeeds when the file can be read and written, stores the new task under
  the id taken from the uuid generator, and appends that id at the end of the column
  \<^verbatim>\<open>todo\<close>; every other column, every other task and the column order stay as they
  were. In the seeded document and in every document reached from it, \<^verbatim>\<open>todo\<close> is
  there and is the first of the column order.
\<close>

theorem createTask_appends_to_todo:
  assumes "truthy title" "read_ok e" "write_ok e" "columns d ''todo'' = Some todo"
  shows "(\<exists>t d'. createTask e d title descr = (Inr t, d')
           \<and> task_id t = uuid_task e \<and> task_title t = the title
           \<and> tasks d' = (tasks d)(uuid_task e \<mapsto> t)
           \<and> columns d' ''todo'' = Some (todo\<lparr>taskIds := taskIds todo @ [uuid_task e]\<rparr>)
           \<and> (\<forall>c. c \<noteq> ''todo'' \<longrightarrow> columns d' c = columns d c)
           \<and> columnOrder d' = columnOrder d)
       \<and> columnOrder (run (initialData now) rs) = [''todo'', ''inprogress'', ''done'']
       \<and> columns (run (initialData now) rs) ''todo'' \<noteq> None"
proof -
  have "\<exists>t d'. createTask e d title descr = (Inr t, d')
           \<and> task_id t = uuid_task e \<and> task_title t = the title
           \<and> tasks d' = (tasks d)(uuid_task e \<mapsto> t)
           \<and> columns d' ''todo'' = Some (todo\<lparr>taskIds := taskIds todo @ [uuid_task e]\<rparr>)
           \<and> (\<forall>c. c \<noteq> ''todo'' \<longrightarrow> columns d' c = columns d c)
           \<and> columnOrder d' = columnOrder d"
    using assms by (simp add: createTask_def Let_def addToHistory_def)
  with todo_first_reachable [of now rs] show ?thesis by blast
qed

text \<open>Witness for C3: a task created on the seeded document.\<close>

theorem createTask_appends_to_todo_witness:
  "fst (createTask (env_ok ''u1'' ''h1'' ''T1'') (initialData ''T0'') (Some ''Buy milk'') None)
     = Inr \<lparr> task_id = ''u1'', task_title = ''Buy milk'', description = Some [], createdAt = ''T1'' \<rparr>
   \<and> map_option taskIds
         (columns (snd (createTask (env_ok ''u1'' ''h1'' ''T1'') (initialData ''T0'') (Some ''Buy milk'') None)) ''todo'')
       = Some [''task-1'', ''u1'']"
proof -
  have todo: "columns (initialData ''T0'') ''todo''
                = Some \<lparr> col_id = ''todo'', col_title = ''To Do'', taskIds = [''task-1''] \<rparr>"
    by (simp add: initialData_def)
  have pre: "truthy (Some ''Buy milk'')" "read_ok (env_ok ''u1'' ''h1'' ''T1'')"
    "write_ok (env_ok ''u1'' ''h1'' ''T1'')"
    by (simp_all add: truthy_def env_ok_def)
  from createTask_appends_to_todo [OF pre todo, where descr = None and now = "''T0''" and rs = "[]"]
  obtain t d' where c: "createTask (env_ok ''u1'' ''h1'' ''T1'') (initialData ''T0'') (Some ''Buy milk'') None = (Inr t, d')"
    and col: "columns d' ''todo'' = Some \<lparr> col_id = ''todo'', col_title = ''To Do'', taskIds = [''task-1'', ''u1''] \<rparr>"
    by (auto simp: env_ok_def)
  have "t = \<lparr> task_id = ''u1'', task_title = ''Buy milk'', description = Some [], createdAt = ''T1'' \<rparr>"
    using c by (simp add: createTask_def Let_def truthy_def env_ok_def initialData_def)
  then show ?thesis using c col by simp
qed

text \<open>
  Counterexample to C3 as stated: in a document whose column order starts with
  \<^verbatim>\<open>backlog\<close>, the new id goes to \<^verbatim>\<open>todo\<close> and the first column stays empty.
\<close>

theorem createTask_first_column_counterexample:
  "fst (createTask (env_ok ''u1'' ''h1'' ''T1'') two_columns (Some ''Buy milk'') None)
     = Inr \<lparr> task_id = ''u1'', task_title = ''Buy milk'', description = Some [], createdAt = ''T1'' \<rparr>
   \<and> columnOrder two_columns ! 0 = ''backlog''
   \<and> map_option taskIds (columns two_columns ''backlog'') = Some []
   \<and> map_option taskIds (columns two_columns ''todo'') = Some []
   \<and> map_option taskIds (columns (snd (createTask (env_ok ''u1'' ''h1'' ''T1'') two_columns (Some ''Buy milk'') None)) ''backlog'') = Some []
   \<and> map_option taskIds (columns (snd (createTask (env_ok ''u1'' ''h1'' ''T1'') two_columns (Some ''Buy milk'') None)) ''todo'') = Some [''u1'']"
  by (simp add: two_columns_def env_ok_def createTask_def Let_def addToHistory_def truthy_def)

section \<open>Moves within one column (C4)\<close>

text \<open>
  C4: when source and destination column are the same, client and server first take out
  the element at \<open>sourceIndex\<close> and then insert the task id at \<open>destIndex\<close> of the
  shortened list; the shortened list is a subsequence of the old and of the new list, so
  all other elements keep their order; for indices within the list the result is, in the
  words of the description, the insertion at \<open>destIndex\<close> into the list with the element
  at \<open>sourceIndex\<close> removed.
\<close>

theorem same_column_move:
  fixes si di :: int
  assumes col: "columns d c = Some col"
  shows "moveTask_optimistic d ident c c si di
           = Inr (d\<lparr>columns := (columns d)(c \<mapsto>
                   col\<lparr>taskIds := splice_js (splice_js (taskIds col) si 1 []) di 0 [ident]\<rparr>)\<rparr>)
       \<and> (read_ok e \<and> write_ok e \<and> tasks d ident \<noteq> None \<longrightarrow>
            moveTask e d ident c c si di
              = (Inr True, d\<lparr>columns := (columns d)(c \<mapsto>
                   col\<lparr>taskIds := splice_js (splice_js (taskIds col) si 1 []) di 0 [ident]\<rparr>)\<rparr>))
       \<and> subseq (splice_js (taskIds col) si 1 []) (taskIds col)
       \<and> subseq (splice_js (taskIds col) si 1 [])
                 (splice_js (splice_js (taskIds col) si 1 []) di 0 [ident])
       \<and> (\<forall>i j. si = int i \<and> di = int j \<and> i < length (taskIds col) \<and> j < length (taskIds col) \<longrightarrow>
             splice_js (splice_js (taskIds col) si 1 []) di 0 [ident]
               = insert_at j ident (remove_at i (taskIds col)))"
proof (intro conjI)
  show "moveTask_optimistic d ident c c si di
           = Inr (d\<lparr>columns := (columns d)(c \<mapsto>
                   col\<lparr>taskIds := splice_js (splice_js (taskIds col) si 1 []) di 0 [ident]\<rparr>)\<rparr>)"
    using col by (simp add: moveTask_optimistic_def Let_def)
  show "read_ok e \<and> write_ok e \<and> tasks d ident \<noteq> None \<longrightarrow>
            moveTask e d ident c c si di
              = (Inr True, d\<lparr>columns := (columns d)(c \<mapsto>
                   col\<lparr>taskIds := splice_js (splice_js (taskIds col) si 1 []) di 0 [ident]\<rparr>)\<rparr>)"
    using col by (auto simp: moveTask_def Let_def)
  show "subseq (splice_js (taskIds col) si 1 []) (taskIds col)"
    by (rule subseq_splice_delete1)
  show "subseq (splice_js (taskIds col) si 1 [])
                 (splice_js (splice_js (taskIds col) si 1 []) di 0 [ident])"
    by (rule subseq_splice_insert1)
  show "\<forall>i j. si = int i \<and> di = int j \<and> i < length (taskIds col) \<and> j < length (taskIds col) \<longrightarrow>
             splice_js (splice_js (taskIds col) si 1 []) di 0 [ident]
               = insert_at j ident (remove_at i (taskIds col))"
  proof (intro allI impI)
    fix i j
    assume a: "si = int i \<and> di = int j \<and> i < length (taskIds col) \<and> j < length (taskIds col)"
    then have r: "splice_js (taskIds col) si 1 [] = remove_at i (taskIds col)"
      by (simp add: splice_delete1_in_range)
    have "length (remove_at i (taskIds col)) = length (taskIds col) - 1"
      using a by (simp add: remove_at_def)
    moreover have "j < length (taskIds col)" using a by simp
    ultimately have "j \<le> length (remove_at i (taskIds col))" by linarith
    then show "splice_js (splice_js (taskIds col) si 1 []) di 0 [ident]
               = insert_at j ident (remove_at i (taskIds col))"
      using a r by (simp add: splice_insert1_in_range)
  qed
qed

text \<open>
  Witness for C4: the column \<^verbatim>\<open>['task-1', 'task-3']\<close>, \<^verbatim>\<open>task-1\<close> moved from index 0 to
  index 1, gives \<^verbatim>\<open>['task-3', 'task-1']\<close> on the client and on the server.
\<close>

theorem same_column_move_witness:
  "map_sum id (\<lambda>b. map_option taskIds (columns b ''column-1''))
     (moveTask_optimistic
        (mockBoardData\<lparr>columns := (columns mockBoardData)(''column-1'' \<mapsto>
           \<lparr> col_id = ''column-1'', col_title = ''To Do'', taskIds = [''task-1'', ''task-3''] \<rparr>)\<rparr>)
        ''task-1'' ''column-1'' ''column-1'' 0 1)
   = Inr (Some [''task-3'', ''task-1''])
   \<and> map_option taskIds (columns (snd (moveTask (env_ok ''u1'' ''h1'' ''T1'')
        (mockBoardData\<lparr>columns := (columns mockBoardData)(''column-1'' \<mapsto>
           \<lparr> col_id = ''column-1'', col_title = ''To Do'', taskIds = [''task-1'', ''task-3''] \<rparr>)\<rparr>)
        ''task-1'' ''column-1'' ''column-1'' 0 1)) ''column-1'')
   = Some [''task-3'', ''task-1'']"
proof -
  let ?col = "\<lparr> col_id = ''column-1'', col_title = ''To Do'', taskIds = [''task-1'', ''task-3''] \<rparr>"
  let ?d = "mockBoardData\<lparr>columns := (columns mockBoardData)(''column-1'' \<mapsto> ?col)\<rparr>"
  have col: "columns ?d ''column-1'' = Some ?col" by simp
  have pre: "read_ok (env_ok ''u1'' ''h1'' ''T1'') \<and> write_ok (env_ok ''u1'' ''h1'' ''T1'')
             \<and> tasks ?d ''task-1'' \<noteq> None"
    by (simp add: env_ok_def mockBoardData_def)
  have ex: "insert_at 1 ''task-1'' (remove_at 0 [''task-1'', ''task-3'']) = [''task-3'', ''task-1'']"
    by (simp add: insert_at_def remove_at_def)
  from same_column_move [OF col, of "''task-1''" 0 1 "env_ok ''u1'' ''h1'' ''T1''"] pre ex
  have "moveTask_optimistic ?d ''task-1'' ''column-1'' ''column-1'' 0 1
          = Inr (?d\<lparr>columns := (columns ?d)(''column-1'' \<mapsto> ?col\<lparr>taskIds := [''task-3'', ''task-1'']\<rparr>)\<rparr>)"
    and "moveTask (env_ok ''u1'' ''h1'' ''T1'') ?d ''task-1'' ''column-1'' ''column-1'' 0 1
          = (Inr True, ?d\<lparr>columns := (columns ?d)(''column-1'' \<mapsto> ?col\<lparr>taskIds := [''task-3'', ''task-1'']\<rparr>)\<rparr>)"
    by auto
  then show ?thesis by simp
qed

section \<open>The optimistic update leaves the old objects alone (C5)\<close>

text \<open>
  C5: for a board held by the store with both columns present, the optimistic update
  succeeds; the board, the dictionary of columns, the two column objects and their
  arrays of the new state are objects that did not exist before, so none of them is
  reference-equal to an object of the old state; and every object that existed before,
  the old board, its dictionary of columns, its columns and their arrays among them, has
  the contents it had.
\<close>

theorem optimistic_move_fresh_objects:
  assumes inv: "\<forall>a \<in> dom (objs h). a < next_addr h"
    and cur: "objs h cur = Some (Board_obj ta ca oa ha)"
    and ca: "objs h ca = Some (Columns_obj m)"
    and sa: "m src = Some sa" "objs h sa = Some (Column_obj sid stitle sarr)" "objs h sarr = Some (Array_obj sxs)"
    and da: "m dst = Some da" "objs h da = Some (Column_obj did dtitle darr)" "objs h darr = Some (Array_obj dxs)"
  shows "\<exists>new h' ca' m' sa' da' sarr' darr' sxs' dxs'.
           moveTask_optimistic_heap h cur taskId src dst si di = Inr (new, h')
         \<and> (\<forall>a \<in> dom (objs h). objs h' a = objs h a)
         \<and> objs h' new = Some (Board_obj ta ca' oa ha)
         \<and> objs h' ca' = Some (Columns_obj m')
         \<and> m' src = Some sa' \<and> m' dst = Some da'
         \<and> (\<forall>k. k \<noteq> src \<and> k \<noteq> dst \<longrightarrow> m' k = m k)
         \<and> objs h' sa' = Some (Column_obj sid stitle sarr') \<and> objs h' sarr' = Some (Array_obj sxs')
         \<and> objs h' da' = Some (Column_obj did dtitle darr') \<and> objs h' darr' = Some (Array_obj dxs')
         \<and> new \<notin> dom (objs h) \<and> ca' \<notin> dom (objs h)
         \<and> sa' \<notin> dom (objs h) \<and> da' \<notin> dom (objs h)
         \<and> sarr' \<notin> dom (objs h) \<and> darr' \<notin> dom (objs h)
         \<and> sa' \<noteq> sa \<and> da' \<noteq> da \<and> sarr' \<noteq> sarr \<and> darr' \<noteq> darr \<and> ca' \<noteq> ca \<and> new \<noteq> cur"
proof -
  let ?n = "next_addr h"
  have old: "a < ?n" if "a \<in> dom (objs h)" for a
    using inv that by blast
  have fresh: "a \<notin> dom (objs h)" if "?n \<le> a" for a
    using old [of a] that by (cases "a \<in> dom (objs h)") simp_all
  have lt: "cur < ?n" "ca < ?n" "sa < ?n" "sarr < ?n" "da < ?n" "darr < ?n"
    using cur ca sa da by (auto intro!: old)
  show ?thesis
  proof (cases "src = dst")
    case True
    then have eq: "da = sa" "did = sid" "dtitle = stitle" "darr = sarr"
      using sa da by simp_all
    from optimistic_heap_same [OF inv cur ca sa, of taskId si di]
    obtain h' where r: "moveTask_optimistic_heap h cur taskId src src si di = Inr (?n, h')"
      and fr: "\<forall>a. a < ?n \<longrightarrow> objs h' a = objs h a"
      and b: "objs h' ?n = Some (Board_obj ta (?n + 4) oa ha)"
      and c: "objs h' (?n + 4) = Some (Columns_obj (m(src \<mapsto> ?n + 1)))"
      and s: "objs h' (?n + 1) = Some (Column_obj sid stitle (?n + 3))"
      and a: "objs h' (?n + 3) = Some (Array_obj (splice_js (splice_js sxs si 1 []) di 0 [taskId]))"
      by blast
    have frame: "\<forall>a \<in> dom (objs h). objs h' a = objs h a"
      using fr old by blast
    show ?thesis
      apply (rule exI [of _ ?n], rule exI [of _ h'], rule exI [of _ "?n + 4"])
      apply (rule exI [of _ "m(src \<mapsto> ?n + 1)"], rule exI [of _ "?n + 1"], rule exI [of _ "?n + 1"])
      apply (rule exI [of _ "?n + 3"], rule exI [of _ "?n + 3"])
      apply (rule exI [of _ "splice_js (splice_js sxs si 1 []) di 0 [taskId]"])
      apply (rule exI [of _ "splice_js (splice_js sxs si 1 []) di 0 [taskId]"])
      using r frame b c s a True eq lt by (simp add: fresh)
  next
    case False
    from optimistic_heap_cross [OF inv cur ca sa da False, of taskId si di]
    obtain h' where r: "moveTask_optimistic_heap h cur taskId src dst si di = Inr (?n, h')"
      and fr: "\<forall>a. a < ?n \<longrightarrow> objs h' a = objs h a"
      and b: "objs h' ?n = Some (Board_obj ta (?n + 5) oa ha)"
      and c: "objs h' (?n + 5) = Some (Columns_obj (m(src \<mapsto> ?n + 1, dst \<mapsto> ?n + 2)))"
      and s: "objs h' (?n + 1) = Some (Column_obj sid stitle (?n + 3))"
      and d: "objs h' (?n + 2) = Some (Column_obj did dtitle (?n + 4))"
      and a1: "objs h' (?n + 3) = Some (Array_obj (splice_js sxs si 1 []))"
      and a2: "objs h' (?n + 4) = Some (Array_obj (splice_js dxs di 0 [taskId]))"
      by blast
    have frame: "\<forall>a \<in> dom (objs h). objs h' a = objs h a"
      using fr old by blast
    show ?thesis
      apply (rule exI [of _ ?n], rule exI [of _ h'], rule exI [of _ "?n + 5"])
      apply (rule exI [of _ "m(src \<mapsto> ?n + 1, dst \<mapsto> ?n + 2)"], rule exI [of _ "?n + 1"], rule exI [of _ "?n + 2"])
      apply (rule exI [of _ "?n + 3"], rule exI [of _ "?n + 4"])
      apply (rule exI [of _ "splice_js sxs si 1 []"])
      apply (rule exI [of _ "splice_js dxs di 0 [taskId]"])
      using r frame b c s d a1 a2 False lt by (simp add: fresh)
  qed
qed

text \<open>
  Witness for C5: the board of the tests, \<^verbatim>\<open>task-1\<close> moved from \<^verbatim>\<open>column-1\<close> to
  \<^verbatim>\<open>column-2\<close>; the old board, its dictionary, the two columns and their arrays are
  as before.
\<close>

theorem optimistic_move_fresh_objects_witness:
  "map_sum id (\<lambda>(new, h'). map (objs h') [0, 2, 5, 6, 7, 8])
     (moveTask_optimistic_heap heap0 0 ''task-1'' ''column-1'' ''column-2'' 0 0)
   = Inr (map (objs heap0) [0, 2, 5, 6, 7, 8])"
proof -
  have inv: "\<forall>a \<in> dom (objs heap0). a < next_addr heap0"
    by (simp add: heap0_def)
  have cur: "objs heap0 0 = Some (Board_obj 1 2 3 (Some 4))"
    and ca: "objs heap0 2 = Some (Columns_obj [''column-1'' \<mapsto> 5, ''column-2'' \<mapsto> 7, ''column-3'' \<mapsto> 9])"
    and sa: "[''column-1'' \<mapsto> 5, ''column-2'' \<mapsto> 7, ''column-3'' \<mapsto> (9::nat)] ''column-1'' = Some 5"
      "objs heap0 5 = Some (Column_obj ''column-1'' ''To Do'' 6)"
      "objs heap0 6 = Some (Array_obj [''task-1''])"
    and da: "[''column-1'' \<mapsto> 5, ''column-2'' \<mapsto> 7, ''column-3'' \<mapsto> (9::nat)] ''column-2'' = Some 7"
      "objs heap0 7 = Some (Column_obj ''column-2'' ''In Progress'' 8)"
      "objs heap0 8 = Some (Array_obj [''task-2''])"
    by (simp_all add: heap0_def)
  obtain new h' where r: "moveTask_optimistic_heap heap0 0 ''task-1'' ''column-1'' ''column-2'' 0 0 = Inr (new, h')"
    and frame: "\<forall>a \<in> dom (objs heap0). objs h' a = objs heap0 a"
  proof -
    from optimistic_move_fresh_objects [OF inv cur ca sa da, of "''task-1''" 0 0]
    show ?thesis by (elim exE conjE) (rule that)
  qed
  have d: "dom (objs heap0) = {0, 1, 2, 3, 4, 5, 6, 7, 8, 9, 10}"
    by (simp add: heap0_def insert_commute)
  have "objs h' 0 = objs heap0 0" "objs h' 2 = objs heap0 2" "objs h' 5 = objs heap0 5"
    "objs h' 6 = objs heap0 6" "objs h' 7 = objs heap0 7" "objs h' 8 = objs heap0 8"
    using frame unfolding d by simp_all
  then show ?thesis using r by simp
qed

section \<open>Confirmation and rollback of a move on the client (C6)\<close>




section \<open>Logging of moves (C7)\<close>

text \<open>
  C7: a move that the server carries out puts exactly one entry in front of the history,
  with the message \<^verbatim>\<open>Moved "<title>" from <source title> to <dest title>\<close>, when the two
  column ids differ, and leaves the history as it is when they are equal.
\<close>

theorem moveTask_logging:
  assumes "read_ok e" "write_ok e" "tasks d ident = Some t"
    "columns d src = Some sc" "columns d dst = Some dc"
  shows "\<exists>d'. moveTask e d ident src dst si di = (Inr True, d')
           \<and> (src \<noteq> dst \<longrightarrow> history d' = Some (take 5
                (\<lparr> hist_id = uuid_hist e,
                   action = ''Moved \"'' @ task_title t @ ''\" from '' @ col_title sc @ '' to '' @ col_title dc,
                   timestamp = now_hist e \<rparr> # history_or_empty d)))
           \<and> (src = dst \<longrightarrow> history d' = history d)"
  using assms
  by (auto simp: moveTask_def Let_def addToHistory_def history_or_empty_def title_text_def)

text \<open>Witness for C7: the welcome task moved from \<^verbatim>\<open>todo\<close> to \<^verbatim>\<open>done\<close>.\<close>

theorem moveTask_logging_witness:
  "history (snd (moveTask (env_ok ''u1'' ''h1'' ''T1'') (initialData ''T0'') ''task-1'' ''todo'' ''done'' 0 0))
     = Some [\<lparr> hist_id = ''h1'',
               action = ''Moved \"Welcome to your Kanban Board!\" from To Do to Done'',
               timestamp = ''T1'' \<rparr>]"
proof -
  have pre: "read_ok (env_ok ''u1'' ''h1'' ''T1'')" "write_ok (env_ok ''u1'' ''h1'' ''T1'')"
    by (simp_all add: env_ok_def)
  have t: "tasks (initialData ''T0'') ''task-1'' = Some
             \<lparr> task_id = ''task-1'', task_title = ''Welcome to your Kanban Board!'',
               description = Some ''Drag me to different columns or edit me by clicking!'',
               createdAt = ''T0'' \<rparr>"
    and sc: "columns (initialData ''T0'') ''todo''
               = Some \<lparr> col_id = ''todo'', col_title = ''To Do'', taskIds = [''task-1''] \<rparr>"
    and dc: "columns (initialData ''T0'') ''done''
               = Some \<lparr> col_id = ''done'', col_title = ''Done'', taskIds = [] \<rparr>"
    by (simp_all add: initialData_def)
  have h: "history_or_empty (initialData ''T0'') = []"
    by (simp add: history_or_empty_def initialData_def)
  from moveTask_logging [OF pre t sc dc, of 0 0] h show ?thesis
    by (auto simp: env_ok_def)
qed

section \<open>The history is bounded and newest first (C8)\<close>

text \<open>
  C8: from a document whose history has at most 5 entries, after any sequence of
  requests the history has at most 5 entries. Every request that is logged puts one
  entry, with its id and its time, in front of the history and cuts the list to its first
  5; every other request leaves the history as it is. So the history after the sequence
  is the first 5 of: the entries of the logged requests, the latest request first, then
  the old history.
\<close>

theorem history_bound:
  assumes "length (history_or_empty d) \<le> 5"
  shows "length (history_or_empty (run d rs)) \<le> 5
       \<and> (\<exists>new. history_or_empty (run d rs) = take 5 (new @ history_or_empty d)
              \<and> map stamp new = rev (stamps_logged d rs))
       \<and> (\<exists>a. history_or_empty (handle d (e, q)) =
              (if logged d (e, q)
               then take 5 (\<lparr> hist_id = uuid_hist e, action = a, timestamp = now_hist e \<rparr>
                              # history_or_empty d)
               else history_or_empty d))"
proof -
  from history_run [OF assms, of rs] obtain new where
    eq: "history_or_empty (run d rs) = take 5 (new @ history_or_empty d)"
    and st: "map stamp new = rev (stamps_logged d rs)" by blast
  from eq have "length (history_or_empty (run d rs)) \<le> 5" by simp
  with eq st history_handle [of d e q] show ?thesis by blast
qed

text \<open>
  Witness for C8: six tasks created on the seeded document; the history holds the entries
  of the last five, the latest first.
\<close>

theorem history_bound_witness:
  "length (history_or_empty (initialData ''T0'')) \<le> 5
   \<and> map stamp (history_or_empty (run (initialData ''T0'')
        [(env_ok ''u1'' ''h1'' ''T1'', CreateTask (Some ''a'') None),
         (env_ok ''u2'' ''h2'' ''T2'', CreateTask (Some ''b'') None),
         (env_ok ''u3'' ''h3'' ''T3'', CreateTask (Some ''c'') None),
         (env_ok ''u4'' ''h4'' ''T4'', CreateTask (Some ''d'') None),
         (env_ok ''u5'' ''h5'' ''T5'', CreateTask (Some ''e'') None),
         (env_ok ''u6'' ''h6'' ''T6'', CreateTask (Some ''f'') None)]))
     = [(''h6'', ''T6''), (''h5'', ''T5''), (''h4'', ''T4''), (''h3'', ''T3''), (''h2'', ''T2'')]"
proof -
  let ?rs = "[(env_ok ''u1'' ''h1'' ''T1'', CreateTask (Some ''a'') None),
         (env_ok ''u2'' ''h2'' ''T2'', CreateTask (Some ''b'') None),
         (env_ok ''u3'' ''h3'' ''T3'', CreateTask (Some ''c'') None),
         (env_ok ''u4'' ''h4'' ''T4'', CreateTask (Some ''d'') None),
         (env_ok ''u5'' ''h5'' ''T5'', CreateTask (Some ''e'') None),
         (env_ok ''u6'' ''h6'' ''T6'', CreateTask (Some ''f'') None)]"
  have h: "length (history_or_empty (initialData ''T0'')) \<le> 5"
    and h0: "history_or_empty (initialData ''T0'') = []"
    by (simp_all add: history_or_empty_def initialData_def)
  have todo: "columns (run (initialData ''T0'') qs) ''todo'' \<noteq> None" for qs
    using todo_first_reachable [of "''T0''" qs] by simp
  have l: "stamps_logged (initialData ''T0'') ?rs
             = [(''h1'', ''T1''), (''h2'', ''T2''), (''h3'', ''T3''), (''h4'', ''T4''), (''h5'', ''T5''), (''h6'', ''T6'')]"
    using todo [of "[]"] todo [of "take 1 ?rs"] todo [of "take 2 ?rs"] todo [of "take 3 ?rs"]
      todo [of "take 4 ?rs"] todo [of "take 5 ?rs"]
    by (simp add: truthy_def env_ok_def)
  from history_bound [OF h, of ?rs] obtain new where
    eq: "history_or_empty (run (initialData ''T0'') ?rs) = take 5 (new @ history_or_empty (initialData ''T0''))"
    and st: "map stamp new = rev (stamps_logged (initialData ''T0'') ?rs)"
    by blast
  have "map stamp (history_or_empty (run (initialData ''T0'') ?rs)) = take 5 (map stamp new)"
    unfolding eq h0 by (simp add: take_map)
  also have "\<dots> = [(''h6'', ''T6''), (''h5'', ''T5''), (''h4'', ''T4''), (''h3'', ''T3''), (''h2'', ''T2'')]"
    unfolding st l by simp
  finally show ?thesis using h by simp
qed

section \<open>Fields applied by an update (C9)\<close>

text \<open>
  C9: for a task that is in \<open>tasks\<close>, updateTask succeeds when the file can be read and
  written; the title becomes the given one when it is non-empty and stays when it is
  empty or omitted; the description becomes the given one whenever one is given, the
  empty string included, and stays only when none is given.
\<close>

theorem updateTask_fields:
  assumes "read_ok e" "write_ok e" "tasks d ident = Some t"
  shows "\<exists>t' d'. updateTask e d ident title descr = (Inr t', d')
           \<and> tasks d' ident = Some t'
           \<and> (\<forall>s. title = Some s \<and> s \<noteq> [] \<longrightarrow> task_title t' = s)
           \<and> (title = None \<or> title = Some [] \<longrightarrow> task_title t' = task_title t)
           \<and> (\<forall>d. descr = Some d \<longrightarrow> description t' = Some d)
           \<and> (descr = None \<longrightarrow> description t' = description t)"
  using assms
  by (cases descr) (auto simp: updateTask_def Let_def addToHistory_def truthy_def)

text \<open>Witness for C9: the welcome task, empty title and empty description given.\<close>

theorem updateTask_fields_witness:
  "map_sum id (\<lambda>t. (task_title t, description t))
     (fst (updateTask (env_ok ''u1'' ''h1'' ''T1'') (initialData ''T0'') ''task-1'' (Some []) (Some [])))
   = Inr (''Welcome to your Kanban Board!'', Some [])"
  using updateTask_fields [of "env_ok ''u1'' ''h1'' ''T1''" "initialData ''T0''" "''task-1''" _ "Some []" "Some []"]
  by (auto simp: env_ok_def initialData_def)

section \<open>The description of a created task (C10)\<close>

text \<open>
  C10: a task created by the server has a description that is a string: the given one,
  or the empty string when none or a falsy one is given.
\<close>

theorem createTask_description_string:
  assumes "truthy title" "read_ok e" "write_ok e" "columns d ''todo'' = Some todo"
  shows "\<exists>t d'. createTask e d title descr = (Inr t, d')
           \<and> tasks d' (task_id t) = Some t
           \<and> (\<exists>s. description t = Some s)
           \<and> (descr = None \<or> descr = Some [] \<longrightarrow> description t = Some [])
           \<and> (\<forall>d. descr = Some d \<longrightarrow> description t = Some d)"
  using assms
  by (cases descr) (auto simp: createTask_def Let_def addToHistory_def truthy_def)

text \<open>Witness for C10: a task created without a description.\<close>

theorem createTask_description_string_witness:
  "map_sum id description (fst (createTask (env_ok ''u1'' ''h1'' ''T1'') (initialData ''T0'') (Some ''Buy milk'') None)) = Inr (Some [])"
  using createTask_description_string [of "Some ''Buy milk''" "env_ok ''u1'' ''h1'' ''T1''" "initialData ''T0''" _ None]
  by (auto simp: env_ok_def initialData_def truthy_def)

end
